theory Spec2Isabelle
  imports Complex_Main "HOL-Library.Sublist"
begin

section \<open>JavaScript values used by the strategy executor\<close>

text \<open>
  A JavaScript \<open>number\<close>, an IEEE 754 double. A finite value is the rational it
  denotes (every finite double is a rational, and comparing two doubles compares these
  rationals); \<open>NaN\<close> and the two infinities are kept, since the comparisons and
  \<open>BigInt\<close> treat them specially.
\<close>

datatype number = NaN | NegInf | Fin rat | PosInf

text \<open>
  The double nearest to a rational \<open>x \<ge> 0\<close>, as the conversion of a decimal literal
  computes it: with \<open>2 ^ e \<le> x < 2 ^ (e + 1)\<close>, and \<open>e\<close> not below the exponent -1022 of
  the subnormal numbers, \<open>x\<close> is rounded to a multiple of \<open>2 ^ (e - 52)\<close>, a tie going to
  the even multiple; what rounds to \<open>2 ^ 1024\<close> or more is \<open>Infinity\<close>.
\<close>

function floor_log2 :: "nat \<Rightarrow> nat" where
  "floor_log2 n = (if n < 2 then 0 else Suc (floor_log2 (n div 2)))"
  by pat_completeness auto
termination
  by (relation "measure id") auto

declare floor_log2.simps [simp del]

definition pow2 :: "int \<Rightarrow> rat" where
  "pow2 e = (if 0 \<le> e then 2 ^ nat e else 1 / 2 ^ nat (- e))"

definition binary_exponent :: "rat \<Rightarrow> int" where
  "binary_exponent x =
     (if 1 \<le> x then int (floor_log2 (nat \<lfloor>x\<rfloor>))
      else - int (floor_log2 (nat (\<lceil>1 / x\<rceil> - 1))) - 1)"

definition round_half_even :: "rat \<Rightarrow> int" where
  "round_half_even y =
     (let f = \<lfloor>y\<rfloor>; d = y - of_int f
      in if d < 1 / 2 then f else if 1 / 2 < d then f + 1
         else if even f then f else f + 1)"

definition to_double :: "rat \<Rightarrow> number" where
  "to_double x =
     (if x = 0 then Fin 0
      else
        (let e = max (binary_exponent x) (- 1022);
             q = pow2 (e - 52);
             v = of_int (round_half_even (x / q)) * q
         in if pow2 1024 \<le> v then PosInf else Fin v))"

text \<open>The relational operators \<open><\<close>, \<open>>\<close>, \<open><=\<close>, \<open>>=\<close> and \<open>===\<close> on numbers:
  every comparison with \<open>NaN\<close> is false.\<close>

fun num_lt :: "number \<Rightarrow> number \<Rightarrow> bool" where
  "num_lt NaN _ = False"
| "num_lt _ NaN = False"
| "num_lt (Fin x) (Fin y) = (x < y)"
| "num_lt NegInf NegInf = False"
| "num_lt NegInf _ = True"
| "num_lt _ NegInf = False"
| "num_lt PosInf _ = False"
| "num_lt _ PosInf = True"

fun num_eq :: "number \<Rightarrow> number \<Rightarrow> bool" where
  "num_eq NaN _ = False"
| "num_eq _ NaN = False"
| "num_eq a b = (a = b)"

definition num_gt :: "number \<Rightarrow> number \<Rightarrow> bool" where
  "num_gt a b = num_lt b a"

definition num_le :: "number \<Rightarrow> number \<Rightarrow> bool" where
  "num_le a b = (num_lt a b \<or> num_eq a b)"

definition num_ge :: "number \<Rightarrow> number \<Rightarrow> bool" where
  "num_ge a b = (num_lt b a \<or> num_eq a b)"

text \<open>
  \<open>v || 0\<close> on an optional number: \<open>undefined\<close>, \<open>0\<close> and \<open>NaN\<close> are falsy and give
  \<open>0\<close>; every other number is kept.
\<close>

fun or_zero :: "number option \<Rightarrow> number" where
  "or_zero None = Fin 0"
| "or_zero (Some NaN) = Fin 0"
| "or_zero (Some (Fin q)) = Fin q"
| "or_zero (Some v) = v"

text \<open>Everything the executor and the handler can throw, named after the message of
  the \<open>Error\<close> raised in the source (or after the JavaScript error class).\<close>

datatype error =
    NoAllocationError            \<comment> \<open>No allocation for lending protocol found in strategy\<close>
  | RangeError                   \<comment> \<open>\<open>BigInt\<close> of a number that is not an integer\<close>
  | TypeError                    \<comment> \<open>a property or a method of something that has none\<close>
  | WalletKeyNotConfigured       \<comment> \<open>Wallet private key is not configured\<close>
  | TokenAddressNotConfigured
  | VaultAddressNotConfigured
  | LendingPoolNotConfigured
  | PinataJwtNotSet
  | PinataUploadFailed string
  | InvalidStrategyFormat
  | ChainExecutionError string   \<comment> \<open>whatever ethers raises: RPC failure, revert, encoding\<close>
  | HostError string             \<comment> \<open>whatever the agent runtime or \<open>fetch\<close> raises\<close>

text \<open>\<open>BigInt(n)\<close> for a number \<open>n\<close>: a \<open>RangeError\<close> unless \<open>n\<close> is an integer.\<close>

fun BigInt :: "number \<Rightarrow> error + int" where
  "BigInt (Fin q) = (if q = of_int \<lfloor>q\<rfloor> then Inr \<lfloor>q\<rfloor> else Inl RangeError)"
| "BigInt _ = Inl RangeError"

text \<open>Division of two bigints truncates towards zero.\<close>

definition bigint_div :: "int \<Rightarrow> int \<Rightarrow> int" where
  "bigint_div a b = sgn a * sgn b * (\<bar>a\<bar> div \<bar>b\<bar>)"

section \<open>The strategy\<close>

text \<open>
  A string of the strategy document is a list of UTF-16 code units, as a JavaScript string
  is; \<open>js\<close> turns an ASCII literal into one. Object keys, addresses, hashes and
  identifiers, which the code only compares and copies, stay Isabelle strings.
\<close>

type_synonym jsstring = "nat list"

definition js :: "string \<Rightarrow> jsstring" where
  "js s = map of_char s"

record lendingProtocol_cfg =
  investmentCondition :: jsstring
  fallbackCondition :: "jsstring option"
  stopLossCondition :: "jsstring option"

record rebalancing_cfg =
  frequency :: jsstring
  deviationTolerance :: jsstring

record transactionLimits_cfg =
  maxTransactionPercentage :: jsstring
  maxSwapSlippage :: jsstring

text \<open>The object under the key \<open>strategy\<close> of a \<open>YieldStrategy\<close>, with
  \<open>assetAllocation\<close> as the list of the record's entries.\<close>

record strategy =
  assetAllocation :: "(string \<times> number) list"
  lendingProtocol :: lendingProtocol_cfg
  rebalancing :: rebalancing_cfg
  transactionLimits :: transactionLimits_cfg

section \<open>The allocation amount\<close>

text \<open>
  Lines 69 to 75 of \<open>executeLendingAllocation\<close>: the percentage is the
  \<open>lendingProtocol\<close> entry of \<open>assetAllocation\<close> or 0, a percentage \<open><= 0\<close> raises, and
  the amount is \<open>toBigInt(totalAmount) * BigInt(percentage) / 100n\<close>. The total is the
  bigint that \<open>totalAssets\<close> returned.
\<close>

definition lendingPercentage :: "strategy \<Rightarrow> number" where
  "lendingPercentage s = or_zero (map_of (assetAllocation s) ''lendingProtocol'')"

definition amountToDeposit :: "strategy \<Rightarrow> int \<Rightarrow> error + int" where
  "amountToDeposit s totalAmount =
     (if num_le (lendingPercentage s) (Fin 0) then Inl NoAllocationError
      else case BigInt (lendingPercentage s) of
             Inl e \<Rightarrow> Inl e
           | Inr p \<Rightarrow> Inr (bigint_div (totalAmount * p) 100))"

text \<open>A strategy that allocates the given percentage to the lending protocol; the other
  fields are those of the example in the parser's prompt.\<close>

definition example_strategy :: "(string \<times> number) list \<Rightarrow> jsstring \<Rightarrow> strategy" where
  "example_strategy alloc cond =
     \<lparr> assetAllocation = alloc,
       lendingProtocol = \<lparr> investmentCondition = cond, fallbackCondition = None,
                           stopLossCondition = None \<rparr>,
       rebalancing = \<lparr> frequency = js ''24 hours'', deviationTolerance = js ''8%'' \<rparr>,
       transactionLimits = \<lparr> maxTransactionPercentage = js ''12%'',
                              maxSwapSlippage = js ''1.8%'' \<rparr> \<rparr>"


section \<open>The condition evaluator\<close>

text \<open>
  The character classes of the pattern \<open>/APY\s*([><=]+)\s*([\d.]+)%?/i\<close>, on code units.
  \<open>\s\<close> is the white space and line terminators of ECMAScript; \<open>\d\<close> is \<open>0\<close> to \<open>9\<close>;
  under the flag \<open>i\<close> a letter of the pattern matches its two cases (no code unit
  outside ASCII is folded onto an ASCII letter).
\<close>

definition is_space :: "nat \<Rightarrow> bool" where
  "is_space c = (c = 9 \<or> c = 10 \<or> c = 11 \<or> c = 12 \<or> c = 13 \<or> c = 32 \<or> c = 160
     \<or> c = 5760 \<or> (8192 \<le> c \<and> c \<le> 8202) \<or> c = 8232 \<or> c = 8233 \<or> c = 8239
     \<or> c = 8287 \<or> c = 12288 \<or> c = 65279)"

definition is_digit :: "nat \<Rightarrow> bool" where
  "is_digit c = (48 \<le> c \<and> c \<le> 57)"

definition is_opchar :: "nat \<Rightarrow> bool" where
  "is_opchar c = (c = 62 \<or> c = 60 \<or> c = 61)"

definition is_numchar :: "nat \<Rightarrow> bool" where
  "is_numchar c = (is_digit c \<or> c = 46)"

definition letter_ci :: "nat \<Rightarrow> nat \<Rightarrow> bool" where
  "letter_ci upper c = (c = upper \<or> c = upper + 32)"

text \<open>
  A match of the pattern that starts at the head of the string, with its two groups.
  The classes \<open>\s\<close>, \<open>[><=]\<close>, \<open>[\d.]\<close> and \<open>%\<close> are pairwise disjoint, so each greedy
  quantifier takes the whole run and backtracking into a shorter run never helps: the
  match exists exactly when both groups are non-empty, and the groups are the maximal runs.
\<close>

definition match_here :: "jsstring \<Rightarrow> (jsstring \<times> jsstring) option" where
  "match_here s =
     (case s of
        a # p # y # r \<Rightarrow>
          if letter_ci 65 a \<and> letter_ci 80 p \<and> letter_ci 89 y then
            (let r1 = dropWhile is_space r;
                 operator = takeWhile is_opchar r1;
                 r2 = dropWhile is_space (dropWhile is_opchar r1);
                 num = takeWhile is_numchar r2
             in if operator \<noteq> [] \<and> num \<noteq> [] then Some (operator, num) else None)
          else None
      | _ \<Rightarrow> None)"

text \<open>\<open>condition.match(...)\<close>: the pattern is not anchored, so the leftmost position
  that has a match wins.\<close>

fun regex_match :: "jsstring \<Rightarrow> (jsstring \<times> jsstring) option" where
  "regex_match [] = None"
| "regex_match (c # cs) =
     (case match_here (c # cs) of Some m \<Rightarrow> Some m | None \<Rightarrow> regex_match cs)"

text \<open>The value of a run of decimal digits.\<close>

definition digits_value :: "jsstring \<Rightarrow> nat" where
  "digits_value ds = foldl (\<lambda>a c. 10 * a + (c - 48)) 0 ds"

text \<open>
  \<open>parseFloat\<close> on the second group, a string of digits and dots: the longest prefix
  that is a decimal literal (digits, then optionally a dot and digits, with a digit
  somewhere) is read and the rest ignored, and the result is the double nearest to the
  number read; without such a prefix the result is \<open>NaN\<close>. The rounding is the correct
  one, which is what V8 computes (ECMAScript also allows an engine to drop the digits
  behind the twentieth significant one before it rounds).
\<close>

definition parseFloat :: "jsstring \<Rightarrow> number" where
  "parseFloat s =
     (let ip = takeWhile is_digit s;
          fp = (case dropWhile is_digit s of
                  [] \<Rightarrow> []
                | c # r \<Rightarrow> if c = 46 then takeWhile is_digit r else [])
      in if ip = [] \<and> fp = [] then NaN
         else to_double
           (of_nat (digits_value ip) + of_nat (digits_value fp) / 10 ^ length fp))"

text \<open>
  The \<open>try\<close> block of \<open>shouldInvestInLendingProtocol\<close>, on what the strategy holds at
  \<open>strategy.strategy.lendingProtocol.investmentCondition\<close>: a string, or \<open>None\<close> when
  the parsed JSON has no string there, in which case reading the path or calling
  \<open>condition.match\<close> raises a \<open>TypeError\<close>. On a string, no match gives false, then comes
  the \<open>switch\<close> on the first group, whose default gives false.
\<close>

definition shouldInvest_try :: "jsstring option \<Rightarrow> number \<Rightarrow> error + bool" where
  "shouldInvest_try condition currentAPY =
     (case condition of
        None \<Rightarrow> Inl TypeError
      | Some s \<Rightarrow>
          (case regex_match s of
             None \<Rightarrow> Inr False
           | Some (operator, num) \<Rightarrow>
               (let threshold = parseFloat num in
                if operator = [62] then Inr (num_gt currentAPY threshold)
                else if operator = [62, 61] then Inr (num_ge currentAPY threshold)
                else if operator = [60] then Inr (num_lt currentAPY threshold)
                else if operator = [60, 61] then Inr (num_le currentAPY threshold)
                else if operator = [61, 61] \<or> operator = [61]
                  then Inr (num_eq currentAPY threshold)
                else Inr False)))"

text \<open>The \<open>catch\<close> around it: whatever is raised becomes false.\<close>

definition shouldInvest_catch :: "jsstring option \<Rightarrow> number \<Rightarrow> bool" where
  "shouldInvest_catch condition currentAPY =
     (case shouldInvest_try condition currentAPY of Inl e \<Rightarrow> False | Inr b \<Rightarrow> b)"

text \<open>\<open>shouldInvestInLendingProtocol\<close> on a strategy of the declared type
  \<open>StrategyConfig\<close>, whose condition is a string.\<close>

definition shouldInvestInLendingProtocol :: "strategy \<Rightarrow> number \<Rightarrow> bool" where
  "shouldInvestInLendingProtocol strategy currentAPY =
     shouldInvest_catch (Some (investmentCondition (lendingProtocol strategy))) currentAPY"

subsection \<open>The grammar of the specification\<close>

text \<open>
  The accepted shape in the specification's words: the literal \<open>APY\<close> in either case,
  optional white space, one operator of \<open>>\<close>, \<open>>=\<close>, \<open><\<close>, \<open><=\<close>, \<open>==\<close>, \<open>=\<close>, optional white
  space, a decimal number, an optional \<open>%\<close>, and nothing else. A decimal number is a
  string of digits with at most one dot and at least one digit. The definitions named
  \<open>spec_\<close> follow the specification, not the source, and are what the evaluator is
  compared with.
\<close>

datatype cmp_op = Gt | Ge | Lt | Le | Eq

definition spec_one_op :: "nat \<Rightarrow> cmp_op option" where
  "spec_one_op c = (if c = 62 then Some Gt else if c = 60 then Some Lt
               else if c = 61 then Some Eq else None)"

definition spec_strip_op :: "jsstring \<Rightarrow> (cmp_op \<times> jsstring) option" where
  "spec_strip_op s =
     (case s of
        [] \<Rightarrow> None
      | c # r \<Rightarrow>
          (case r of
             [] \<Rightarrow> map_option (\<lambda>opc. (opc, r)) (spec_one_op c)
           | d # r' \<Rightarrow>
               if d = 61 \<and> c = 62 then Some (Ge, r')
               else if d = 61 \<and> c = 60 then Some (Le, r')
               else if d = 61 \<and> c = 61 then Some (Eq, r')
               else map_option (\<lambda>opc. (opc, r)) (spec_one_op c)))"

definition spec_is_decimal :: "jsstring \<Rightarrow> bool" where
  "spec_is_decimal t = (list_all is_numchar t \<and> length (filter (\<lambda>c. c = 46) t) \<le> 1
     \<and> list_ex is_digit t)"

definition spec_parse_condition :: "jsstring \<Rightarrow> (cmp_op \<times> jsstring) option" where
  "spec_parse_condition s =
     (case s of
        a # p # y # r \<Rightarrow>
          if letter_ci 65 a \<and> letter_ci 80 p \<and> letter_ci 89 y then
            (case spec_strip_op (dropWhile is_space r) of
               None \<Rightarrow> None
             | Some (opc, r2) \<Rightarrow>
                 (let r3 = dropWhile is_space r2;
                      t = takeWhile is_numchar r3;
                      rest = dropWhile is_numchar r3
                  in if spec_is_decimal t \<and> (rest = [] \<or> rest = [37]) then Some (opc, t)
                     else None))
          else None
      | _ \<Rightarrow> None)"

definition spec_well_formed :: "jsstring \<Rightarrow> bool" where
  "spec_well_formed s = (spec_parse_condition s \<noteq> None)"

text \<open>The number a decimal denotes: its digits read as one integer, scaled by the
  number of digits behind the dot.\<close>

definition spec_decimal_value :: "jsstring \<Rightarrow> rat" where
  "spec_decimal_value t =
     of_nat (digits_value (filter is_digit t))
       / 10 ^ (if 46 \<in> set t then length (takeWhile is_digit (rev t)) else 0)"

text \<open>
  The comparison of two numbers: by their place on the extended line, minus infinity
  below and plus infinity above every finite number, and false whenever one of the two is
  \<open>NaN\<close>.
\<close>

fun spec_place :: "number \<Rightarrow> (int \<times> rat) option" where
  "spec_place NaN = None"
| "spec_place NegInf = Some (- 1, 0)"
| "spec_place (Fin q) = Some (0, q)"
| "spec_place PosInf = Some (1, 0)"

definition spec_below :: "int \<times> rat \<Rightarrow> int \<times> rat \<Rightarrow> bool" where
  "spec_below a b = (fst a < fst b \<or> (fst a = fst b \<and> snd a < snd b))"

fun spec_holds :: "cmp_op \<Rightarrow> int \<times> rat \<Rightarrow> int \<times> rat \<Rightarrow> bool" where
  "spec_holds Gt a b = spec_below b a"
| "spec_holds Ge a b = (spec_below b a \<or> a = b)"
| "spec_holds Lt a b = spec_below a b"
| "spec_holds Le a b = (spec_below a b \<or> a = b)"
| "spec_holds Eq a b = (a = b)"

definition spec_compare :: "cmp_op \<Rightarrow> number \<Rightarrow> number \<Rightarrow> bool" where
  "spec_compare opc r t =
     (case (spec_place r, spec_place t) of
        (Some a, Some b) \<Rightarrow> spec_holds opc a b
      | _ \<Rightarrow> False)"

text \<open>
  What the evaluator does on an arbitrary string, in words. An occurrence is a string
  made of the three letters \<open>APY\<close> in either case followed by optional white space, one
  or more of the characters \<open>>\<close>, \<open><\<close>, \<open>=\<close>, optional white space, and one or more digits
  and dots, and nothing else. The evaluator takes the occurrence that starts first in
  the condition and, among those, the longest. Without an occurrence the result is false.
  Otherwise the operator characters of the occurrence must form one of the six operators
  and its digits and dots must begin with a decimal number, of which the longest is
  taken; the result is the comparison of the rate with the double nearest to it, and
  false in every other case.
\<close>

datatype char_class = Space | Operator | Digits | Other

definition spec_class :: "nat \<Rightarrow> char_class" where
  "spec_class c =
     (if is_space c then Space else if is_opchar c then Operator
      else if is_numchar c then Digits else Other)"

definition spec_occurrence :: "jsstring \<Rightarrow> bool" where
  "spec_occurrence u =
     (case u of
        a # p # y # rest \<Rightarrow>
          letter_ci 65 a \<and> letter_ci 80 p \<and> letter_ci 89 y
          \<and> remdups_adj (map spec_class rest) \<in>
              set [[Operator, Digits], [Space, Operator, Digits],
                   [Operator, Space, Digits], [Space, Operator, Space, Digits]]
      | _ \<Rightarrow> False)"

text \<open>The substrings of a string: those that start first come first and, of those
  that start at one place, the longest comes first.\<close>

definition spec_candidates :: "jsstring \<Rightarrow> jsstring list" where
  "spec_candidates s = concat (map (\<lambda>t. rev (prefixes t)) (rev (suffixes s)))"

definition spec_first_occurrence :: "jsstring \<Rightarrow> jsstring option" where
  "spec_first_occurrence s = find spec_occurrence (spec_candidates s)"

definition spec_operator :: "jsstring \<Rightarrow> cmp_op option" where
  "spec_operator ops =
     map_of [([62], Gt), ([62, 61], Ge), ([60], Lt), ([60, 61], Le), ([61, 61], Eq),
             ([61], Eq)] ops"

definition spec_longest_decimal :: "jsstring \<Rightarrow> jsstring option" where
  "spec_longest_decimal num = find spec_is_decimal (rev (prefixes num))"

definition spec_evaluate :: "jsstring \<Rightarrow> number \<Rightarrow> bool" where
  "spec_evaluate s r =
     (case spec_first_occurrence s of
        None \<Rightarrow> False
      | Some u \<Rightarrow>
          (case spec_operator (filter is_opchar u) of
             None \<Rightarrow> False
           | Some opc \<Rightarrow>
               (case spec_longest_decimal (filter is_numchar u) of
                  None \<Rightarrow> False
                | Some t \<Rightarrow> spec_compare opc r (to_double (spec_decimal_value t)))))"


section \<open>The environment of one invocation\<close>

text \<open>
  What an invocation reads from the process configuration, and what each external
  collaborator answers when it is called: the chain (through ethers), the pinning
  service, the agent runtime's store and the caller's callback. A call of a collaborator
  is recorded as an event, in the order of the calls.
\<close>

record receipt =
  hash :: string
  blockNumber :: nat

text \<open>The call data of the ABI functions \<open>approve(address,uint256)\<close> and
  \<open>deposit(uint256)\<close>, kept symbolic.\<close>

datatype calldata = ApproveCall string int | DepositCall int

record ipfs_result =
  cid :: string
  gatewayUrl :: string
  pinataUrl :: string

text \<open>The lines of \<open>simulatedExecutionSteps\<close>: the seven fixed ones and those the
  handler pushes after each step.\<close>

datatype step =
    Connected
  | StrategyParsed
  | AllocationSet "(string \<times> number) list"
  | LendingConditionsSet
  | RebalancingSet jsstring jsstring
  | LimitsConfigured
  | UsingNetwork string
  | Executed string             \<comment> \<open>Strategy executed on-chain. Transaction hash\<close>
  | NoActionTaken               \<comment> \<open>No action taken: condition not met or no assets\<close>
  | ExecutionFailed error       \<comment> \<open>Failed to execute strategy on-chain\<close>
  | ReferenceSet string         \<comment> \<open>Strategy reference set on-chain. Tx\<close>
  | ReferenceFailed error       \<comment> \<open>Failed to set strategy reference on-chain\<close>

text \<open>What the handler passes to the callback and returns.\<close>

datatype content =
    NoStrategyContent
  | StrategyErrorContent
  | ErrorContent error
  | ExecutionContent "step list" strategy "ipfs_result option"

datatype event =
    VaultTotalAssets string
  | VaultExecute string "string list" "calldata list" "int list"
  | PinJSON strategy
  | SetStrategyReference string nat string
  | GetMemories
  | CreateMemory strategy "ipfs_result option"
  | Callback content

text \<open>A stored memory of the table \<open>yieldStrategies\<close>: its content holds a text or a
  strategy object or neither, and the validation of the schema succeeds or raises.\<close>

datatype stored =
    StoredText "error + strategy"
  | StoredObject "error + strategy"
  | StoredNeither

text \<open>
  The environment. From the configuration: the network's name, the wallet's private key,
  the three addresses and the current rate of the active network, and the two variables
  of the pinning service (an unset variable is the empty string). From the collaborators:
  what the wallet's constructor raises on the key, if anything; which strings ethers
  takes for an address; what \<open>totalAssets\<close> returns; what \<open>vault.execute\<close> followed by
  \<open>tx.wait\<close> returns; the response of the pinning service (a failure of \<open>fetch\<close>, or
  the flag \<open>ok\<close> with the identifier or the error payload); what the transaction of
  \<open>setStrategyReference\<close> returns; what \<open>getMemories\<close> returns; what
  \<open>createMemory\<close> and the callback raise, if anything.
\<close>

record env =
  network :: string
  privateKey :: string
  wallet_error :: "error option"
  isAddress :: "string \<Rightarrow> bool"
  strategyVaultAddress :: string
  lendingPoolAddress :: string
  tokenAddress :: string
  currentAPY :: number
  totalAssets_result :: "error + int"
  execute_result :: "error + receipt"
  PINATA_JWT :: string
  GATEWAY_URL :: string
  pinata_response :: "error + bool \<times> string"
  setStrategyReference_result :: "error + receipt"
  getMemories_result :: "error + stored list"
  createMemory_error :: "error option"
  callback_error :: "error option"

record message =
  msg_id :: "string option"
  msg_text :: string
  processed :: "string option"

datatype signer = Wallet string

text \<open>\<open>getSigner\<close>: the private key of the configuration must be set; the wallet's
  constructor may still reject it.\<close>

definition getSigner :: "env \<Rightarrow> error + signer" where
  "getSigner env =
     (if privateKey env = [] then Inl WalletKeyNotConfigured
      else case wallet_error env of
             Some e \<Rightarrow> Inl e
           | None \<Rightarrow> Inr (Wallet (privateKey env)))"

text \<open>\<open>encodeFunctionData\<close> raises on an argument that does not fit its ABI type:
  the spender must be an address, the amounts must fit \<open>uint256\<close>.\<close>

definition fits_uint256 :: "int \<Rightarrow> bool" where
  "fits_uint256 n = (0 \<le> n \<and> n < 2 ^ 256)"

definition encodeApprove :: "env \<Rightarrow> string \<Rightarrow> int \<Rightarrow> error + calldata" where
  "encodeApprove env spender amount =
     (if isAddress env spender \<and> fits_uint256 amount then Inr (ApproveCall spender amount)
      else Inl (ChainExecutionError ''invalid argument''))"

definition encodeDeposit :: "int \<Rightarrow> error + calldata" where
  "encodeDeposit amount =
     (if fits_uint256 amount then Inr (DepositCall amount)
      else Inl (ChainExecutionError ''invalid argument''))"

section \<open>The allocation executor\<close>

definition getVaultTotalAssets :: "env \<Rightarrow> string \<Rightarrow> (error + int) \<times> event list" where
  "getVaultTotalAssets env vaultAddress =
     (totalAssets_result env, [VaultTotalAssets vaultAddress])"

text \<open>
  \<open>executeLendingAllocation\<close>: the signer, the amount, the token address, the two
  encodings, and one call of the vault's \<open>execute\<close> with the two sub-calls; the result
  of that call and of waiting for it to be mined is the environment's answer.
\<close>

definition executeLendingAllocation ::
  "env \<Rightarrow> strategy \<Rightarrow> string \<Rightarrow> string \<Rightarrow> int \<Rightarrow> (error + receipt) \<times> event list" where
  "executeLendingAllocation env strategy vaultAddress lendingPool totalAmount =
     (case getSigner env of
        Inl e \<Rightarrow> (Inl e, [])
      | Inr sg \<Rightarrow>
          (case amountToDeposit strategy totalAmount of
             Inl e \<Rightarrow> (Inl e, [])
           | Inr amount \<Rightarrow>
               if tokenAddress env = [] then (Inl TokenAddressNotConfigured, [])
               else
                 (case encodeApprove env lendingPool amount of
                    Inl e \<Rightarrow> (Inl e, [])
                  | Inr approveCalldata \<Rightarrow>
                      (case encodeDeposit amount of
                         Inl e \<Rightarrow> (Inl e, [])
                       | Inr depositCalldata \<Rightarrow>
                           (execute_result env,
                            [VaultExecute vaultAddress
                               [tokenAddress env, lendingPool]
                               [approveCalldata, depositCalldata]
                               [0, 0]])))))"

text \<open>\<open>executeFullStrategy\<close>: the two addresses, the condition, the balance, and
  then the allocation; \<open>null\<close> is \<open>None\<close>.\<close>

definition executeFullStrategy ::
  "env \<Rightarrow> strategy \<Rightarrow> (error + receipt option) \<times> event list" where
  "executeFullStrategy env strategy =
     (if strategyVaultAddress env = [] then (Inl VaultAddressNotConfigured, [])
      else if lendingPoolAddress env = [] then (Inl LendingPoolNotConfigured, [])
      else if \<not> shouldInvestInLendingProtocol strategy (currentAPY env) then (Inr None, [])
      else
        (case getVaultTotalAssets env (strategyVaultAddress env) of
           (Inl e, tr) \<Rightarrow> (Inl e, tr)
         | (Inr totalAmount, tr) \<Rightarrow>
             if totalAmount \<le> 0 then (Inr None, tr)
             else
               (case executeLendingAllocation env strategy (strategyVaultAddress env)
                       (lendingPoolAddress env) totalAmount of
                  (Inl e, tr') \<Rightarrow> (Inl e, tr @ tr')
                | (Inr rc, tr') \<Rightarrow> (Inr (Some rc), tr @ tr'))))"

section \<open>Publication and anchoring\<close>

definition uploadToIPFS :: "env \<Rightarrow> strategy \<Rightarrow> (error + ipfs_result) \<times> event list" where
  "uploadToIPFS env jsonObject =
     (if PINATA_JWT env = [] then (Inl PinataJwtNotSet, [])
      else
        (case pinata_response env of
           Inl e \<Rightarrow> (Inl e, [PinJSON jsonObject])
         | Inr (ok, body) \<Rightarrow>
             if \<not> ok then (Inl (PinataUploadFailed body), [PinJSON jsonObject])
             else
               (let gw = (if GATEWAY_URL env = [] then ''ipfs.io'' else GATEWAY_URL env)
                in (Inr \<lparr> cid = body,
                          gatewayUrl = ''https://'' @ gw @ ''/ipfs/'' @ body,
                          pinataUrl = ''https://gateway.pinata.cloud/ipfs/'' @ body \<rparr>,
                    [PinJSON jsonObject]))))"

definition setStrategyReference ::
  "env \<Rightarrow> nat \<Rightarrow> string \<Rightarrow> (error + receipt) \<times> event list" where
  "setStrategyReference env strategyId referenceData =
     (case getSigner env of
        Inl e \<Rightarrow> (Inl e, [])
      | Inr sg \<Rightarrow>
          if strategyVaultAddress env = [] then (Inl VaultAddressNotConfigured, [])
          else (setStrategyReference_result env,
                [SetStrategyReference (strategyVaultAddress env) strategyId referenceData]))"

section \<open>The handler of the action that executes a strategy\<close>

definition initialSteps :: "env \<Rightarrow> strategy \<Rightarrow> step list" where
  "initialSteps env strategy =
     [Connected, StrategyParsed, AllocationSet (assetAllocation strategy),
      LendingConditionsSet,
      RebalancingSet (frequency (rebalancing strategy))
        (deviationTolerance (rebalancing strategy)),
      LimitsConfigured, UsingNetwork (network env)]"

text \<open>The line pushed after the allocation (the receipt's hash, no action for \<open>null\<close>,
  or the failure that was caught) and the line pushed after the reference was set or
  failed to be.\<close>

definition allocationStep :: "error + receipt option \<Rightarrow> step" where
  "allocationStep r =
     (case r of
        Inr (Some rc) \<Rightarrow> Executed (hash rc)
      | Inr None \<Rightarrow> NoActionTaken
      | Inl e \<Rightarrow> ExecutionFailed e)"

definition anchorStep :: "error + receipt \<Rightarrow> step" where
  "anchorStep a =
     (case a of
        Inr txReceipt \<Rightarrow> ReferenceSet (hash txReceipt)
      | Inl contractError \<Rightarrow> ReferenceFailed contractError)"

text \<open>
  Lines 407 to 450 of the handler: the allocation in its own \<open>try\<close>, then the upload in
  a second \<open>try\<close> and, inside it, the reference on-chain in a third. The result is the
  pair of \<open>simulatedExecutionSteps\<close> and \<open>ipfsResult\<close> (\<open>null\<close> is \<open>None\<close>).
\<close>

definition executionPhase ::
  "env \<Rightarrow> strategy \<Rightarrow> (step list \<times> ipfs_result option) \<times> event list" where
  "executionPhase env strategy =
     (let (r, tr1) = executeFullStrategy env strategy;
          steps1 = initialSteps env strategy @ [allocationStep r]
      in case uploadToIPFS env strategy of
           (Inl e, tr2) \<Rightarrow> ((steps1, None), tr1 @ tr2)
         | (Inr ipfsResult, tr2) \<Rightarrow>
             if cid ipfsResult \<noteq> [] then
               (case setStrategyReference env 1 (gatewayUrl ipfsResult) of
                  (a, tr3) \<Rightarrow>
                    ((steps1 @ [anchorStep a], Some ipfsResult), tr1 @ tr2 @ tr3))
             else ((steps1, Some ipfsResult), tr1 @ tr2))"

text \<open>The strategy of a stored memory (lines 365 to 378).\<close>

fun loadStrategy :: "stored \<Rightarrow> error + strategy" where
  "loadStrategy (StoredText r) = r"
| "loadStrategy (StoredObject r) = r"
| "loadStrategy StoredNeither = Inl InvalidStrategyFormat"

text \<open>\<open>await callback(c); return c\<close>.\<close>

definition respond :: "env \<Rightarrow> content \<Rightarrow> event list \<Rightarrow> (error + content) \<times> event list" where
  "respond env c tr =
     (case callback_error env of
        None \<Rightarrow> (Inr c, tr @ [Callback c])
      | Some e \<Rightarrow> (Inl e, tr @ [Callback c]))"

text \<open>The body of the handler's outer \<open>try\<close>, after the message has been marked. The
  pause of 1.5 seconds before the response has no counterpart here.\<close>

definition handler_body :: "env \<Rightarrow> (error + content) \<times> event list" where
  "handler_body env =
     (case getMemories_result env of
        Inl e \<Rightarrow> (Inl e, [GetMemories])
      | Inr [] \<Rightarrow> respond env NoStrategyContent [GetMemories]
      | Inr (strategyMemory # _) \<Rightarrow>
          (case loadStrategy strategyMemory of
             Inl e \<Rightarrow> respond env StrategyErrorContent [GetMemories]
           | Inr strategy \<Rightarrow>
               (let ((steps, ipfsResult), tr) = executionPhase env strategy;
                    tr' = GetMemories # tr @ [CreateMemory strategy ipfsResult]
                in case createMemory_error env of
                     Some e \<Rightarrow> (Inl e, tr')
                   | None \<Rightarrow> respond env (ExecutionContent steps strategy ipfsResult) tr')))"

text \<open>
  The handler of \<open>executeStrategyAction\<close>. A message already marked returns
  \<open>undefined\<close> at once; otherwise the message is marked and the body runs, and whatever
  the body raises is reported through the callback by the outer \<open>catch\<close>. The result is
  what the handler returns or raises, the message as the handler leaves it, and the
  events.
\<close>

definition executeStrategyAction_handler ::
  "env \<Rightarrow> message \<Rightarrow> (error + content option) \<times> message \<times> event list" where
  "executeStrategyAction_handler env message =
     (if processed message = Some ''EXECUTE_YIELD_STRATEGY'' then (Inr None, message, [])
      else
        (let message' = message\<lparr>processed := Some ''EXECUTE_YIELD_STRATEGY''\<rparr>
         in case handler_body env of
              (Inr c, tr) \<Rightarrow> (Inr (Some c), message', tr)
            | (Inl e, tr) \<Rightarrow>
                (case callback_error env of
                   None \<Rightarrow> (Inr (Some (ErrorContent e)), message',
                            tr @ [Callback (ErrorContent e)])
                 | Some e' \<Rightarrow> (Inl e', message', tr @ [Callback (ErrorContent e)]))))"

text \<open>
  The guard at the head of the handler of \<open>parseStrategyAction\<close> (lines 73 to 96), on
  the registry \<open>global._processedMessageIds\<close>: whether the handler goes on, the registry
  and the message afterwards. An empty identifier is falsy.
\<close>

definition parseStrategy_guard ::
  "(string \<Rightarrow> bool) \<Rightarrow> message \<Rightarrow> bool \<times> (string \<Rightarrow> bool) \<times> message" where
  "parseStrategy_guard registry message =
     (if processed message = Some ''PARSE_YIELD_STRATEGY'' then (False, registry, message)
      else
        (case msg_id message of
           None \<Rightarrow> (True, registry, message\<lparr>processed := Some ''PARSE_YIELD_STRATEGY''\<rparr>)
         | Some i \<Rightarrow>
             if i \<noteq> [] \<and> registry i then (False, registry, message)
             else (True, (if i \<noteq> [] then registry(i := True) else registry),
                   message\<lparr>processed := Some ''PARSE_YIELD_STRATEGY''\<rparr>)))"

text \<open>Transactions: the events that submit one.\<close>

fun is_transaction :: "event \<Rightarrow> bool" where
  "is_transaction (VaultExecute _ _ _ _) = True"
| "is_transaction (SetStrategyReference _ _ _) = True"
| "is_transaction _ = False"

fun is_anchor :: "event \<Rightarrow> bool" where
  "is_anchor (SetStrategyReference _ _ _) = True"
| "is_anchor _ = False"

fun is_allocation :: "event \<Rightarrow> bool" where
  "is_allocation (VaultExecute _ _ _ _) = True"
| "is_allocation _ = False"

fun is_publication :: "event \<Rightarrow> bool" where
  "is_publication (PinJSON _) = True"
| "is_publication _ = False"

fun is_anchor_step :: "step \<Rightarrow> bool" where
  "is_anchor_step (ReferenceSet _) = True"
| "is_anchor_step (ReferenceFailed _) = True"
| "is_anchor_step _ = False"

fun is_failure_step :: "step \<Rightarrow> bool" where
  "is_failure_step (ExecutionFailed _) = True"
| "is_failure_step _ = False"

subsection \<open>An environment and a message for the examples\<close>

text \<open>The scenario of the specification: 70 percent for the lending protocol, the
  condition \<open>APY > 6%\<close>, a rate of 7.2 and a balance of 1000000.\<close>

definition scenario_strategy :: strategy where
  "scenario_strategy = example_strategy [(''lendingProtocol'', Fin 70)] (js ''APY > 6%'')"

definition scenario_env :: env where
  "scenario_env =
     \<lparr> network = ''rootstock'',
       privateKey = ''0x01'',
       wallet_error = None,
       isAddress = (\<lambda>a. a \<noteq> []),
       strategyVaultAddress = ''0xVault'',
       lendingPoolAddress = ''0xPool'',
       tokenAddress = ''0xToken'',
       currentAPY = Fin (36 / 5),
       totalAssets_result = Inr 1000000,
       execute_result = Inr \<lparr> hash = ''0xaa'', blockNumber = 7 \<rparr>,
       PINATA_JWT = ''jwt'',
       GATEWAY_URL = [],
       pinata_response = Inr (True, ''bafy''),
       setStrategyReference_result = Inr \<lparr> hash = ''0xbb'', blockNumber = 8 \<rparr>,
       getMemories_result = Inr [StoredText (Inr scenario_strategy)],
       createMemory_error = None,
       callback_error = None \<rparr>"

definition failing_env :: env where
  "failing_env = scenario_env\<lparr>execute_result := Inl (ChainExecutionError ''revert'')\<rparr>"

definition scenario_message :: message where
  "scenario_message =
     \<lparr> msg_id = Some ''m-1'', msg_text = ''Execute my yield strategy'', processed = None \<rparr>"

text \<open>The same request delivered a second time, as a new object with the same
  identifier.\<close>

definition redelivered_message :: message where
  "redelivered_message =
     \<lparr> msg_id = Some ''m-1'', msg_text = ''Execute my yield strategy'', processed = None \<rparr>"


section \<open>Properties of the allocation amount\<close>

lemma bigint_div_nonneg: "0 \<le> a \<Longrightarrow> 0 < b \<Longrightarrow> bigint_div a b = a div b"
  by (cases "a = 0") (simp_all add: bigint_div_def)

lemma BigInt_of_int: "BigInt (Fin (of_int p)) = Inr p"
  by simp

lemma amountToDeposit_computed:
  assumes "map_of (assetAllocation s) ''lendingProtocol'' = Some (Fin q)"
    and "0 < q" and "0 \<le> b" and "amountToDeposit s b = Inr a"
  shows "q = of_int \<lfloor>q\<rfloor> \<and> 0 < \<lfloor>q\<rfloor> \<and> a = b * \<lfloor>q\<rfloor> div 100"
proof -
  from assms(1) have lp: "lendingPercentage s = Fin q"
    by (simp add: lendingPercentage_def)
  from assms(2,4) lp have i: "q = of_int \<lfloor>q\<rfloor>" and a: "a = bigint_div (b * \<lfloor>q\<rfloor>) 100"
    by (auto simp: amountToDeposit_def num_le_def split: if_splits)
  from assms(2) i have p: "0 < \<lfloor>q\<rfloor>" by (metis of_int_0_less_iff)
  with assms(3) have "0 \<le> b * \<lfloor>q\<rfloor>" by simp
  then have "bigint_div (b * \<lfloor>q\<rfloor>) 100 = b * \<lfloor>q\<rfloor> div 100"
    by (rule bigint_div_nonneg) simp
  with i p a show ?thesis by simp
qed

lemma amountToDeposit_integer:
  assumes "map_of (assetAllocation s) ''lendingProtocol'' = Some (Fin q)"
    and "0 < q" and "q = of_int \<lfloor>q\<rfloor>"
  shows "\<exists>a. amountToDeposit s b = Inr a"
proof -
  from assms(1) have lp: "lendingPercentage s = Fin q"
    by (simp add: lendingPercentage_def)
  from assms(2,3) show ?thesis
    by (simp add: amountToDeposit_def lp num_le_def)
qed

text \<open>
  C3. For every total balance \<open>b \<ge> 0\<close> and every percentage \<open>p > 0\<close> configured for the
  lending protocol, the amount computed before submission is the floor of
  \<open>b * p / 100\<close>, and an amount is computed whenever the percentage is an integer (for any
  other number \<open>BigInt\<close> raises and nothing is computed). With 70 percent, a balance of
  1000 gives 700 and a balance of 999 gives 699: the remainder is dropped.
\<close>

theorem C3_amount_is_floor:
  assumes "map_of (assetAllocation s) ''lendingProtocol'' = Some (Fin q)"
    and "0 < q" and "0 \<le> b"
  shows "(\<forall>a. amountToDeposit s b = Inr a \<longrightarrow> a = \<lfloor>of_int b * q / 100\<rfloor>)
     \<and> (q = of_int \<lfloor>q\<rfloor> \<longrightarrow> (\<exists>a. amountToDeposit s b = Inr a))"
proof (intro conjI allI impI)
  fix a
  assume "amountToDeposit s b = Inr a"
  from amountToDeposit_computed [OF assms this]
  have i: "q = of_int \<lfloor>q\<rfloor>" and a: "a = b * \<lfloor>q\<rfloor> div 100" by simp_all
  have "\<lfloor>of_int b * q / 100\<rfloor> = \<lfloor>(of_int (b * \<lfloor>q\<rfloor>) / of_int 100 :: rat)\<rfloor>"
    by (subst i) simp
  also have "\<dots> = b * \<lfloor>q\<rfloor> div 100"
    by (rule floor_divide_of_int_eq)
  finally show "a = \<lfloor>of_int b * q / 100\<rfloor>" using a by simp
next
  assume "q = of_int \<lfloor>q\<rfloor>"
  with assms(1,2) show "\<exists>a. amountToDeposit s b = Inr a"
    by (rule amountToDeposit_integer)
qed

theorem C3_amount_is_floor_witness:
  "amountToDeposit (example_strategy [(''lendingProtocol'', Fin 70)] []) 1000 = Inr 700
 \<and> amountToDeposit (example_strategy [(''lendingProtocol'', Fin 70)] []) 999 = Inr 699"
proof -
  let ?s = "example_strategy [(''lendingProtocol'', Fin 70)] []"
  have e: "map_of (assetAllocation ?s) ''lendingProtocol'' = Some (Fin 70)"
    by (simp add: example_strategy_def)
  have f: "\<lfloor>rat_of_int 1000 * 70 / 100\<rfloor> = 700" "\<lfloor>rat_of_int 999 * 70 / 100\<rfloor> = 699"
    by (rule floor_unique; simp)+
  from C3_amount_is_floor [OF e, of 1000] C3_amount_is_floor [OF e, of 999] f
  show ?thesis by auto
qed

text \<open>
  C5. For every total balance \<open>b \<ge> 0\<close> and every percentage \<open>p\<close> with \<open>0 < p \<le> 100\<close>,
  the amount computed lies between 0 and \<open>b\<close>, the balance the vault reported; an amount
  is computed whenever the percentage is an integer.
\<close>

theorem C5_amount_within_balance:
  assumes "map_of (assetAllocation s) ''lendingProtocol'' = Some (Fin q)"
    and "0 < q" and "q \<le> 100" and "0 \<le> b"
  shows "(\<forall>a. amountToDeposit s b = Inr a \<longrightarrow> 0 \<le> a \<and> a \<le> b)
     \<and> (q = of_int \<lfloor>q\<rfloor> \<longrightarrow> (\<exists>a. amountToDeposit s b = Inr a))"
proof (intro conjI allI impI)
  fix a
  assume "amountToDeposit s b = Inr a"
  from amountToDeposit_computed [OF assms(1,2,4) this]
  have p: "0 < \<lfloor>q\<rfloor>" and a: "a = b * \<lfloor>q\<rfloor> div 100" by simp_all
  from assms(3) have "\<lfloor>q\<rfloor> \<le> 100" by (simp add: floor_le_iff)
  with assms(4) have "b * \<lfloor>q\<rfloor> \<le> b * 100" by (simp add: mult_left_mono)
  then have "b * \<lfloor>q\<rfloor> div 100 \<le> b * 100 div 100" by (rule zdiv_mono1) simp
  then show "a \<le> b" using a by simp
  from p assms(4) have "0 \<le> b * \<lfloor>q\<rfloor>" by simp
  then show "0 \<le> a" using a by (simp add: pos_imp_zdiv_nonneg_iff)
next
  assume "q = of_int \<lfloor>q\<rfloor>"
  with assms(1,2) show "\<exists>a. amountToDeposit s b = Inr a"
    by (rule amountToDeposit_integer)
qed

theorem C5_amount_within_balance_witness:
  "\<exists>a. amountToDeposit (example_strategy [(''lendingProtocol'', Fin 100)] []) 5 = Inr a
       \<and> 0 \<le> a \<and> a \<le> 5"
proof -
  let ?s = "example_strategy [(''lendingProtocol'', Fin 100)] []"
  have e: "map_of (assetAllocation ?s) ''lendingProtocol'' = Some (Fin 100)"
    by (simp add: example_strategy_def)
  from C5_amount_within_balance [OF e, of 5] show ?thesis by auto
qed

lemma fractional_percentage_raises:
  "amountToDeposit (example_strategy [(''lendingProtocol'', Fin (67 / 2))] []) 1000
     = Inl RangeError"
proof -
  have "\<lfloor>67 / 2 :: rat\<rfloor> = 33"
    by (rule floor_unique) simp_all
  then show ?thesis
    by (simp add: amountToDeposit_def lendingPercentage_def example_strategy_def num_le_def)
qed


section \<open>Properties of the rounding to a double\<close>

text \<open>
  The exponent \<open>binary_exponent\<close> computes is the one of the binade of its argument, the
  rounding to an integer is to a nearest integer, a tie going to the even one, and so
  \<open>to_double\<close> is off by at most half a unit in the last place. A value whose binade and
  nearest multiple are known is evaluated by \<open>to_double_nearest\<close>.
\<close>

lemma pow2_powi: "pow2 e = 2 powi e"
  by (simp add: pow2_def power_int_def power_one_over)

lemma pow2_pos: "0 < pow2 e"
  by (simp add: pow2_powi)

lemma pow2_mono: "a \<le> b \<Longrightarrow> pow2 a \<le> pow2 b"
  by (simp add: pow2_powi power_int_increasing)

lemma pow2_nat: "pow2 (int k) = 2 ^ k"
  by (simp add: pow2_def)

lemma pow2_Suc: "pow2 (e + 1) = 2 * pow2 e"
  by (simp add: pow2_powi power_int_add_1')

lemma floor_log2_bounds:
  "0 < n \<longrightarrow> 2 ^ floor_log2 n \<le> n \<and> n < 2 * 2 ^ floor_log2 n"
proof (induction n rule: floor_log2.induct)
  case (1 n)
  show ?case
  proof (cases "n < 2")
    case True
    then show ?thesis by (simp add: floor_log2.simps)
  next
    case False
    define p :: nat where "p = 2 ^ floor_log2 (n div 2)"
    have "0 < n div 2" using False by simp
    with 1 False have "p \<le> n div 2 \<and> n div 2 < 2 * p" by (simp add: p_def)
    then have "2 * p \<le> n \<and> n < 2 * (2 * p)" by arith
    moreover have "floor_log2 n = Suc (floor_log2 (n div 2))"
      using False by (subst floor_log2.simps) simp
    ultimately show ?thesis by (simp add: p_def)
  qed
qed

lemma binary_exponent_bounds:
  assumes "0 < x"
  shows "pow2 (binary_exponent x) \<le> x \<and> x < pow2 (binary_exponent x + 1)"
proof (cases "1 \<le> x")
  case True
  define n where "n = nat \<lfloor>x\<rfloor>"
  define k where "k = floor_log2 n"
  have fl: "1 \<le> \<lfloor>x\<rfloor>" using True by (simp add: le_floor_iff)
  then have n: "rat_of_nat n = of_int \<lfloor>x\<rfloor>" and pos: "0 < n" by (simp_all add: n_def)
  have x: "of_nat n \<le> x" "x < of_nat n + 1" unfolding n by linarith+
  from floor_log2_bounds [of n] pos have "2 ^ k \<le> n" "n + 1 \<le> 2 * 2 ^ k"
    by (simp_all add: k_def)
  then have "rat_of_nat (2 ^ k) \<le> of_nat n" "rat_of_nat (n + 1) \<le> of_nat (2 * 2 ^ k)"
    by (simp_all only: of_nat_le_iff)
  then have "(2::rat) ^ k \<le> of_nat n" "rat_of_nat n + 1 \<le> 2 * 2 ^ k" by simp_all
  with x have "2 ^ k \<le> x \<and> x < 2 * 2 ^ k" by linarith
  moreover have "binary_exponent x = int k"
    using True by (simp add: binary_exponent_def k_def n_def)
  ultimately show ?thesis by (simp add: pow2_Suc pow2_nat)
next
  case False
  define y where "y = 1 / x"
  define m where "m = nat (\<lceil>y\<rceil> - 1)"
  define k where "k = floor_log2 m"
  have y1: "1 < y" using False assms by (simp add: y_def)
  then have c: "1 < \<lceil>y\<rceil>" by (simp add: less_ceiling_iff)
  then have m: "rat_of_nat m = of_int \<lceil>y\<rceil> - 1" and pos: "0 < m" by (simp_all add: m_def)
  have y: "of_nat m < y" "y \<le> of_nat m + 1"
    unfolding m using ceiling_correct [of y] by simp_all
  from floor_log2_bounds [of m] pos have "2 ^ k \<le> m" "m + 1 \<le> 2 * 2 ^ k"
    by (simp_all add: k_def)
  then have "rat_of_nat (2 ^ k) \<le> of_nat m" "rat_of_nat (m + 1) \<le> of_nat (2 * 2 ^ k)"
    by (simp_all only: of_nat_le_iff)
  then have "(2::rat) ^ k \<le> of_nat m" "rat_of_nat m + 1 \<le> 2 * 2 ^ k" by simp_all
  with y have b: "2 ^ k < y" "y \<le> 2 * 2 ^ k" by linarith+
  have "2 ^ k * x < 1" using b(1) assms by (simp add: y_def field_simps)
  then have up: "x < 1 / 2 ^ k" by (simp add: field_simps)
  have "1 \<le> 2 * 2 ^ k * x" using b(2) assms by (simp add: y_def field_simps)
  then have lo: "1 / (2 * 2 ^ k) \<le> x" by (simp add: field_simps)
  have e: "binary_exponent x = - int k - 1"
    using False by (simp add: binary_exponent_def k_def m_def y_def)
  have "pow2 (- int k - 1) = 1 / (2 * 2 ^ k)"
    by (simp add: pow2_def nat_add_distrib)
  moreover have "pow2 (- int k - 1 + 1) = 1 / 2 ^ k"
    by (cases k) (simp_all add: pow2_def nat_add_distrib)
  ultimately show ?thesis using lo up unfolding e by simp
qed

lemma binary_exponent_unique:
  assumes "pow2 e \<le> x" and "x < pow2 (e + 1)"
  shows "binary_exponent x = e"
proof -
  have "0 < x" using assms(1) pow2_pos [of e] by simp
  from binary_exponent_bounds [OF this]
  have b: "pow2 (binary_exponent x) \<le> x" "x < pow2 (binary_exponent x + 1)" by simp_all
  show ?thesis
  proof (rule ccontr)
    assume "binary_exponent x \<noteq> e"
    then consider "binary_exponent x + 1 \<le> e" | "e + 1 \<le> binary_exponent x" by linarith
    then show False
    proof cases
      case 1
      from pow2_mono [OF this] b(2) assms(1) show False by simp
    next
      case 2
      from pow2_mono [OF this] b(1) assms(2) show False by simp
    qed
  qed
qed

lemma round_half_even_nearest: "\<bar>of_int (round_half_even y) - y\<bar> \<le> 1 / 2"
proof -
  have "of_int \<lfloor>y\<rfloor> \<le> y" "y < of_int \<lfloor>y\<rfloor> + 1" by linarith+
  then show ?thesis by (auto simp: round_half_even_def Let_def)
qed

lemma round_half_even_unique:
  assumes "\<bar>of_int n - y\<bar> < 1 / 2"
  shows "round_half_even y = n"
proof -
  have "\<bar>rat_of_int (round_half_even y) - of_int n\<bar> < 1"
    using round_half_even_nearest [of y] assms by linarith
  then have "\<bar>rat_of_int (round_half_even y - n)\<bar> < 1" by simp
  then have "\<bar>round_half_even y - n\<bar> < 1"
    by (metis of_int_abs of_int_less_1_iff)
  then show ?thesis by simp
qed

lemma round_half_even_tie:
  "round_half_even (of_int f + 1 / 2) = (if even f then f else f + 1)"
proof -
  have "\<lfloor>rat_of_int f + 1 / 2\<rfloor> = f" by (rule floor_unique) simp_all
  then show ?thesis by (simp add: round_half_even_def Let_def)
qed

lemma to_double_nearest:
  assumes "pow2 e \<le> x" and "x < pow2 (e + 1)" and "- 1022 \<le> e"
    and "\<bar>of_int n - x / pow2 (e - 52)\<bar> < 1 / 2"
    and "of_int n * pow2 (e - 52) < pow2 1024"
  shows "to_double x = Fin (of_int n * pow2 (e - 52))"
proof -
  have "0 < x" using assms(1) pow2_pos [of e] by simp
  moreover have "binary_exponent x = e" using assms(1,2) by (rule binary_exponent_unique)
  moreover have "round_half_even (x / pow2 (e - 52)) = n"
    using assms(4) by (rule round_half_even_unique)
  ultimately show ?thesis
    using assms(3,5) by (simp add: to_double_def Let_def max_def)
qed

lemma to_double_half_ulp:
  assumes "0 < x" and "to_double x = Fin v"
  shows "\<bar>v - x\<bar> \<le> pow2 (max (binary_exponent x) (- 1022) - 52) / 2"
proof -
  define q where "q = pow2 (max (binary_exponent x) (- 1022) - 52)"
  have q: "0 < q" by (simp add: q_def pow2_pos)
  from assms have v: "v = of_int (round_half_even (x / q)) * q"
    by (auto simp: to_double_def Let_def q_def split: if_splits)
  have "\<bar>of_int (round_half_even (x / q)) - x / q\<bar> * q \<le> 1 / 2 * q"
    using round_half_even_nearest [of "x / q"] q by (intro mult_right_mono) simp_all
  moreover have "\<bar>of_int (round_half_even (x / q)) - x / q\<bar> * q = \<bar>v - x\<bar>"
  proof -
    have "\<bar>of_int (round_half_even (x / q)) - x / q\<bar> * q
        = \<bar>(of_int (round_half_even (x / q)) - x / q) * q\<bar>"
      using q by (simp add: abs_mult)
    also have "(of_int (round_half_even (x / q)) - x / q) * q = v - x"
      using q by (simp add: v field_simps)
    finally show ?thesis .
  qed
  ultimately show ?thesis by (simp add: q_def)
qed

lemma to_double_6: "to_double 6 = Fin 6"
  using to_double_nearest [of 2 6 "6 * 2 ^ 50"] by (simp add: pow2_def)

lemma to_double_7: "to_double 7 = Fin 7"
  using to_double_nearest [of 2 7 "7 * 2 ^ 50"] by (simp add: pow2_def)

lemma to_double_13_2: "to_double (13 / 2) = Fin (13 / 2)"
  using to_double_nearest [of 2 "13 / 2" "13 * 2 ^ 49"] by (simp add: pow2_def)

lemma to_double_tenth: "to_double (1 / 10) = Fin (3602879701896397 / 36028797018963968)"
  using to_double_nearest [of "- 4" "1 / 10" 7205759403792794] by (simp add: pow2_def)

lemma to_double_near_6: "to_double (60000000000000001 / 10000000000000000) = Fin 6"
  using to_double_nearest [of 2 "60000000000000001 / 10000000000000000" "6 * 2 ^ 50"]
  by (simp add: pow2_def)


section \<open>Properties of the condition evaluator\<close>

subsection \<open>Character classes, decimal numbers and \<open>parseFloat\<close>\<close>

lemma opchar_not_space: "is_opchar c \<Longrightarrow> \<not> is_space c"
  by (auto simp: is_opchar_def is_space_def)

lemma numchar_not_space: "is_numchar c \<Longrightarrow> \<not> is_space c"
  by (auto simp: is_numchar_def is_digit_def is_space_def)

lemma numchar_not_opchar: "is_numchar c \<Longrightarrow> \<not> is_opchar c"
  by (auto simp: is_numchar_def is_digit_def is_opchar_def)

lemma space_not_opchar: "is_space c \<Longrightarrow> \<not> is_opchar c"
  by (auto simp: is_opchar_def is_space_def)

lemma digit_numchar: "is_digit c \<Longrightarrow> is_numchar c"
  by (simp add: is_numchar_def)

lemma digit_not_dot: "is_digit c \<Longrightarrow> c \<noteq> 46"
  by (auto simp: is_digit_def)

lemma numchar_cases: "is_numchar c \<Longrightarrow> \<not> is_digit c \<Longrightarrow> c = 46"
  by (simp add: is_numchar_def)

lemma foldl_digits:
  "foldl (\<lambda>a c. 10 * a + (c - 48)) a ds
     = a * 10 ^ length ds + foldl (\<lambda>a c. 10 * a + (c - 48)) (0::nat) ds"
proof (induction ds arbitrary: a)
  case Nil
  show ?case by simp
next
  case (Cons d ds)
  have "foldl (\<lambda>a c. 10 * a + (c - 48)) a (d # ds)
      = foldl (\<lambda>a c. 10 * a + (c - 48)) (10 * a + (d - 48)) ds" by simp
  also have "\<dots> = (10 * a + (d - 48)) * 10 ^ length ds
      + foldl (\<lambda>a c. 10 * a + (c - 48)) 0 ds"
    by (rule Cons.IH)
  also have "foldl (\<lambda>a c. 10 * a + (c - 48)) 0 (d # ds)
      = (d - 48) * 10 ^ length ds + foldl (\<lambda>a c. 10 * a + (c - 48)) 0 ds"
    using Cons.IH [of "d - 48"] by simp
  ultimately show ?case by (simp add: algebra_simps)
qed

lemma digits_value_append:
  "digits_value (xs @ ys) = digits_value xs * 10 ^ length ys + digits_value ys"
  unfolding digits_value_def foldl_append by (rule foldl_digits)

lemma digits_value_Nil: "digits_value [] = 0"
  by (simp add: digits_value_def)

lemma all_digits_filter: "list_all is_digit ds \<Longrightarrow> filter is_digit ds = ds"
  by (induction ds) simp_all

lemma all_digits_no_dot: "list_all is_digit ds \<Longrightarrow> 46 \<notin> set ds"
  by (auto simp: list_all_iff dest: digit_not_dot)

lemma takeWhile_all: "list_all P xs \<Longrightarrow> takeWhile P xs = xs"
  by (induction xs) simp_all

lemma dropWhile_all: "list_all P xs \<Longrightarrow> dropWhile P xs = []"
  by (induction xs) simp_all

lemma list_all_takeWhile: "list_all P (takeWhile P xs)"
  by (induction xs) simp_all

lemma decimal_shape:
  assumes "spec_is_decimal t"
  shows "(list_all is_digit t \<and> t \<noteq> [])
       \<or> (\<exists>ip fp. t = ip @ 46 # fp \<and> list_all is_digit ip \<and> list_all is_digit fp
             \<and> (ip \<noteq> [] \<or> fp \<noteq> []))"
proof -
  define ip where "ip = takeWhile is_digit t"
  define r where "r = dropWhile is_digit t"
  have t: "t = ip @ r" by (simp add: ip_def r_def)
  have ip: "list_all is_digit ip" by (simp add: ip_def list_all_takeWhile)
  from assms have num: "list_all is_numchar t" and cnt: "length (filter (\<lambda>c. c = 46) t) \<le> 1"
    and ex: "list_ex is_digit t" by (simp_all add: spec_is_decimal_def)
  show ?thesis
  proof (cases r)
    case Nil
    with t ip ex show ?thesis by (auto simp: list_ex_iff)
  next
    case (Cons c fp)
    have "\<not> is_digit c" using Cons hd_dropWhile [of is_digit t] by (simp add: r_def)
    moreover have "is_numchar c" using num t Cons by simp
    ultimately have c: "c = 46" by (rule numchar_cases [rotated])
    have "filter (\<lambda>c. c = 46) ip = []"
      using ip by (auto simp: filter_empty_conv list_all_iff dest: digit_not_dot)
    with cnt t Cons c have "filter (\<lambda>c. c = 46) fp = []" by simp
    then have nodot: "\<forall>x \<in> set fp. x \<noteq> 46" by (simp add: filter_empty_conv)
    have "list_all is_numchar fp" using num t Cons by simp
    with nodot have fp: "list_all is_digit fp"
      by (auto simp: list_all_iff is_numchar_def)
    have "ip \<noteq> [] \<or> fp \<noteq> []"
      using ex t Cons c by (auto simp: list_ex_iff is_digit_def)
    with t Cons c ip fp show ?thesis by blast
  qed
qed

lemma parseFloat_digits:
  assumes "list_all is_digit t" and "t \<noteq> []"
  shows "parseFloat t = to_double (of_nat (digits_value t))"
  using assms by (simp add: parseFloat_def takeWhile_all dropWhile_all digits_value_Nil)

lemma decimal_value_digits:
  assumes "list_all is_digit t"
  shows "spec_decimal_value t = of_nat (digits_value t)"
  using assms by (simp add: spec_decimal_value_def all_digits_filter all_digits_no_dot)

lemma takeWhile_digits_dot:
  "list_all is_digit ip \<Longrightarrow> takeWhile is_digit (ip @ 46 # fp) = ip"
  by (induction ip) (simp_all add: is_digit_def)

lemma dropWhile_digits_dot:
  "list_all is_digit ip \<Longrightarrow> dropWhile is_digit (ip @ 46 # fp) = 46 # fp"
  by (induction ip) (simp_all add: is_digit_def)

lemma parseFloat_fraction:
  assumes "list_all is_digit ip" and "list_all is_digit fp" and "ip \<noteq> [] \<or> fp \<noteq> []"
  shows "parseFloat (ip @ 46 # fp)
       = to_double (of_nat (digits_value ip) + of_nat (digits_value fp) / 10 ^ length fp)"
  using assms
  by (auto simp add: parseFloat_def takeWhile_digits_dot dropWhile_digits_dot takeWhile_all)

lemma decimal_value_fraction:
  assumes "list_all is_digit ip" and "list_all is_digit fp"
  shows "spec_decimal_value (ip @ 46 # fp)
       = of_nat (digits_value ip) + of_nat (digits_value fp) / 10 ^ length fp"
proof -
  have f: "filter is_digit (ip @ 46 # fp) = ip @ fp"
    using assms by (simp add: all_digits_filter is_digit_def)
  have "list_all is_digit (rev fp)" using assms(2) by (simp add: list_all_iff)
  then have "takeWhile is_digit (rev fp @ 46 # rev ip) = rev fp"
    by (rule takeWhile_digits_dot)
  then have l: "length (takeWhile is_digit (rev (ip @ 46 # fp))) = length fp" by simp
  have "spec_decimal_value (ip @ 46 # fp)
      = of_nat (digits_value (ip @ fp)) / 10 ^ length fp"
    unfolding spec_decimal_value_def f l by simp
  also have "\<dots> = (of_nat (digits_value ip) * 10 ^ length fp + of_nat (digits_value fp))
      / 10 ^ length fp"
    by (simp add: digits_value_append)
  also have "\<dots> = of_nat (digits_value ip) + of_nat (digits_value fp) / 10 ^ length fp"
    by (simp add: add_divide_distrib)
  finally show ?thesis .
qed

lemma parseFloat_decimal:
  "spec_is_decimal t \<Longrightarrow> parseFloat t = to_double (spec_decimal_value t)"
  using decimal_shape [of t]
  by (auto simp: parseFloat_digits decimal_value_digits parseFloat_fraction
      decimal_value_fraction)

lemma decimal_nonempty: "spec_is_decimal t \<Longrightarrow> t \<noteq> []"
  by (auto simp: spec_is_decimal_def)

lemma takeWhile_hd: "takeWhile P xs \<noteq> [] \<Longrightarrow> xs \<noteq> [] \<and> P (hd xs)"
  by (cases xs) (auto split: if_splits)

lemma dropWhile_space_head:
  assumes "dropWhile is_space r \<noteq> []" and "is_numchar (hd (dropWhile is_space r))"
  shows "r \<noteq> [] \<and> \<not> is_opchar (hd r)"
proof (cases r)
  case Nil
  with assms show ?thesis by simp
next
  case (Cons c cs)
  show ?thesis
  proof (cases "is_space c")
    case True
    with Cons show ?thesis by (simp add: space_not_opchar)
  next
    case False
    with Cons assms show ?thesis by (simp add: numchar_not_opchar)
  qed
qed

lemma strip_op_runs:
  assumes "spec_strip_op r1 = Some (opc, r2)" and "r2 \<noteq> []" and "\<not> is_opchar (hd r2)"
  shows "dropWhile is_opchar r1 = r2 \<and>
     (case opc of Gt \<Rightarrow> takeWhile is_opchar r1 = [62]
               | Ge \<Rightarrow> takeWhile is_opchar r1 = [62, 61]
               | Lt \<Rightarrow> takeWhile is_opchar r1 = [60]
               | Le \<Rightarrow> takeWhile is_opchar r1 = [60, 61]
               | Eq \<Rightarrow> takeWhile is_opchar r1 = [61] \<or> takeWhile is_opchar r1 = [61, 61])"
proof (cases r1)
  case Nil
  with assms show ?thesis by (simp add: spec_strip_op_def)
next
  case c: (Cons c r)
  show ?thesis
  proof (cases r)
    case Nil
    with c assms show ?thesis by (auto simp: spec_strip_op_def)
  next
    case (Cons d r')
    with c assms show ?thesis
      by (cases r2) (auto simp: spec_strip_op_def spec_one_op_def is_opchar_def split: if_splits)
  qed
qed

lemma parse_condition_match:
  assumes "spec_parse_condition s = Some (opc, t)"
  shows "spec_is_decimal t \<and> (\<exists>ops. regex_match s = Some (ops, t) \<and>
     (case opc of Gt \<Rightarrow> ops = [62] | Ge \<Rightarrow> ops = [62, 61] | Lt \<Rightarrow> ops = [60]
               | Le \<Rightarrow> ops = [60, 61] | Eq \<Rightarrow> ops = [61] \<or> ops = [61, 61]))"
proof -
  from assms obtain a p y r r2 where s: "s = a # p # y # r"
    and letters: "letter_ci 65 a \<and> letter_ci 80 p \<and> letter_ci 89 y"
    and so: "spec_strip_op (dropWhile is_space r) = Some (opc, r2)"
    and t: "t = takeWhile is_numchar (dropWhile is_space r2)"
    and dec: "spec_is_decimal t"
    by (auto simp: spec_parse_condition_def Let_def split: list.splits if_splits option.splits)
  from dec have tn: "t \<noteq> []" by (rule decimal_nonempty)
  with t have "dropWhile is_space r2 \<noteq> [] \<and> is_numchar (hd (dropWhile is_space r2))"
    using takeWhile_hd [of is_numchar "dropWhile is_space r2"] by simp
  then have "r2 \<noteq> [] \<and> \<not> is_opchar (hd r2)"
    using dropWhile_space_head [of r2] by simp
  with so have runs: "dropWhile is_opchar (dropWhile is_space r) = r2 \<and>
     (case opc of Gt \<Rightarrow> takeWhile is_opchar (dropWhile is_space r) = [62]
        | Ge \<Rightarrow> takeWhile is_opchar (dropWhile is_space r) = [62, 61]
        | Lt \<Rightarrow> takeWhile is_opchar (dropWhile is_space r) = [60]
        | Le \<Rightarrow> takeWhile is_opchar (dropWhile is_space r) = [60, 61]
        | Eq \<Rightarrow> takeWhile is_opchar (dropWhile is_space r) = [61]
             \<or> takeWhile is_opchar (dropWhile is_space r) = [61, 61])"
    using strip_op_runs [of "dropWhile is_space r" opc r2] by simp
  then have opn: "takeWhile is_opchar (dropWhile is_space r) \<noteq> []"
    by (cases opc) auto
  have "match_here s = Some (takeWhile is_opchar (dropWhile is_space r), t)"
    using s letters runs t tn opn by (simp add: match_here_def Let_def)
  then have "regex_match s = Some (takeWhile is_opchar (dropWhile is_space r), t)"
    using s by simp
  with runs dec show ?thesis by blast
qed


lemma regex_match_Some:
  "regex_match s = Some m \<Longrightarrow> \<exists>pre t. s = pre @ t \<and> match_here t = Some m"
proof (induction s)
  case Nil
  then show ?case by simp
next
  case (Cons c cs)
  show ?case
  proof (cases "match_here (c # cs)")
    case None
    with Cons.prems have "regex_match cs = Some m" by simp
    from Cons.IH [OF this] obtain pre t where "cs = pre @ t" and "match_here t = Some m"
      by blast
    then have "c # cs = (c # pre) @ t \<and> match_here t = Some m" by simp
    then show ?thesis by blast
  next
    case (Some m')
    with Cons.prems have "c # cs = [] @ (c # cs) \<and> match_here (c # cs) = Some m" by simp
    then show ?thesis by blast
  qed
qed

lemma match_here_Some:
  assumes "match_here t = Some (ops, num)"
  shows "\<exists>a p y ws1 ws2 rest. t = a # p # y # ws1 @ ops @ ws2 @ num @ rest
     \<and> letter_ci 65 a \<and> letter_ci 80 p \<and> letter_ci 89 y
     \<and> list_all is_space ws1 \<and> list_all is_space ws2
     \<and> ops \<noteq> [] \<and> list_all is_opchar ops \<and> num \<noteq> [] \<and> list_all is_numchar num"
proof -
  from assms obtain a p y r where t: "t = a # p # y # r"
    and letters: "letter_ci 65 a \<and> letter_ci 80 p \<and> letter_ci 89 y"
    and ops: "ops = takeWhile is_opchar (dropWhile is_space r)"
    and num: "num = takeWhile is_numchar
        (dropWhile is_space (dropWhile is_opchar (dropWhile is_space r)))"
    and ne: "ops \<noteq> []" "num \<noteq> []"
    by (auto simp: match_here_def Let_def split: list.splits if_splits)
  define ws1 where "ws1 = takeWhile is_space r"
  define r1 where "r1 = dropWhile is_space r"
  define r2 where "r2 = dropWhile is_opchar r1"
  define ws2 where "ws2 = takeWhile is_space r2"
  define r3 where "r3 = dropWhile is_space r2"
  define rest where "rest = dropWhile is_numchar r3"
  have "r = ws1 @ r1" by (simp add: ws1_def r1_def)
  moreover have "r1 = ops @ r2" by (simp add: ops r1_def r2_def)
  moreover have "r2 = ws2 @ r3" by (simp add: ws2_def r3_def)
  moreover have "r3 = num @ rest" by (simp add: num rest_def r3_def r2_def r1_def)
  ultimately have "t = a # p # y # ws1 @ ops @ ws2 @ num @ rest" using t by simp
  moreover have "list_all is_space ws1" "list_all is_space ws2"
    by (simp_all add: ws1_def ws2_def list_all_takeWhile)
  moreover have "list_all is_opchar ops" "list_all is_numchar num"
    by (simp_all add: ops num list_all_takeWhile)
  ultimately show ?thesis using letters ne by blast
qed

lemma no_dot_filter: "list_all is_digit ds \<Longrightarrow> filter (\<lambda>c. c = 46) ds = []"
  by (induction ds) (simp_all add: digit_not_dot)

lemma digits_decimal: "list_all is_digit ds \<Longrightarrow> ds \<noteq> [] \<Longrightarrow> spec_is_decimal ds"
  by (cases ds) (auto simp: spec_is_decimal_def no_dot_filter list_all_iff dest: digit_numchar)

lemma dot_digits_decimal:
  "list_all is_digit ds \<Longrightarrow> ds \<noteq> [] \<Longrightarrow> spec_is_decimal (46 # ds)"
  by (cases ds)
     (auto simp: spec_is_decimal_def no_dot_filter is_numchar_def list_all_iff dest: digit_not_dot)

lemma parseFloat_prefix:
  assumes "parseFloat num \<noteq> NaN"
  shows "\<exists>d rest. num = d @ rest \<and> spec_is_decimal d"
proof (cases "takeWhile is_digit num = []")
  case False
  have "list_all is_digit (takeWhile is_digit num)" by (rule list_all_takeWhile)
  then have "spec_is_decimal (takeWhile is_digit num)"
    using False by (rule digits_decimal)
  moreover have "num = takeWhile is_digit num @ dropWhile is_digit num" by simp
  ultimately show ?thesis by blast
next
  case True
  then have dw: "dropWhile is_digit num = num"
    using takeWhile_dropWhile_id [of is_digit num] by simp
  from assms True dw obtain r where num: "num = 46 # r" and fp: "takeWhile is_digit r \<noteq> []"
    by (cases num) (auto simp: parseFloat_def Let_def split: if_splits)
  have all: "list_all is_digit (takeWhile is_digit r)" by (rule list_all_takeWhile)
  have "spec_is_decimal (46 # takeWhile is_digit r)"
    using all fp by (rule dot_digits_decimal)
  moreover have "num = (46 # takeWhile is_digit r) @ dropWhile is_digit r"
    using num by simp
  ultimately show ?thesis by blast
qed

lemma dropWhile_run:
  assumes "list_all P ws" and "xs \<noteq> []" and "\<not> P (hd xs)"
  shows "dropWhile P (ws @ xs) = xs"
  using assms by (induction ws) (simp_all, cases xs, simp_all)

lemma strip_op_accepted:
  assumes "ops = [62] \<or> ops = [62, 61] \<or> ops = [60] \<or> ops = [60, 61] \<or> ops = [61, 61]
      \<or> ops = [61]"
    and "xs \<noteq> []" and "\<not> is_opchar (hd xs)"
  shows "\<exists>opc. spec_strip_op (ops @ xs) = Some (opc, xs)"
  using assms by (cases xs) (auto simp: spec_strip_op_def spec_one_op_def is_opchar_def)

lemma parse_condition_built:
  assumes "letter_ci 65 a \<and> letter_ci 80 p \<and> letter_ci 89 y"
    and "list_all is_space ws1" and "list_all is_space ws2"
    and "ops = [62] \<or> ops = [62, 61] \<or> ops = [60] \<or> ops = [60, 61] \<or> ops = [61, 61]
      \<or> ops = [61]"
    and "spec_is_decimal d"
  shows "spec_well_formed (a # p # y # ws1 @ ops @ ws2 @ d)"
proof -
  from assms(5) have d: "d \<noteq> []" "list_all is_numchar d"
    by (auto simp: spec_is_decimal_def)
  then have hd_d: "is_numchar (hd d)" by (cases d) simp_all
  have tail: "ws2 @ d \<noteq> [] \<and> \<not> is_opchar (hd (ws2 @ d))"
    using d hd_d assms(3)
    by (cases ws2) (simp_all add: numchar_not_opchar space_not_opchar)
  from assms(4) have opshd: "ops @ ws2 @ d \<noteq> [] \<and> \<not> is_space (hd (ops @ ws2 @ d))"
    by (auto simp: is_space_def)
  have 1: "dropWhile is_space (ws1 @ ops @ ws2 @ d) = ops @ ws2 @ d"
    using assms(2) opshd by (simp add: dropWhile_run)
  from strip_op_accepted [OF assms(4)] tail obtain opc
    where 2: "spec_strip_op (ops @ ws2 @ d) = Some (opc, ws2 @ d)" by blast
  have 3: "dropWhile is_space (ws2 @ d) = d"
    using assms(3) d hd_d by (simp add: dropWhile_run numchar_not_space)
  have "spec_parse_condition (a # p # y # ws1 @ ops @ ws2 @ d) = Some (opc, d)"
    using assms(1,5)
    by (simp add: spec_parse_condition_def 1 2 3 Let_def takeWhile_all [OF d(2)]
        dropWhile_all [OF d(2)] del: takeWhile_eq_all_conv dropWhile_eq_Nil_conv)
  then show ?thesis by (simp add: spec_well_formed_def)
qed

subsection \<open>Conditions that are well formed, and conditions that contain none\<close>

lemma shouldInvest_unfold:
  "shouldInvestInLendingProtocol strategy r =
     (case regex_match (investmentCondition (lendingProtocol strategy)) of
        None \<Rightarrow> False
      | Some (operator, num) \<Rightarrow>
          (let threshold = parseFloat num in
           if operator = [62] then num_gt r threshold
           else if operator = [62, 61] then num_ge r threshold
           else if operator = [60] then num_lt r threshold
           else if operator = [60, 61] then num_le r threshold
           else if operator = [61, 61] \<or> operator = [61] then num_eq r threshold
           else False))"
  by (simp add: shouldInvestInLendingProtocol_def shouldInvest_catch_def shouldInvest_try_def
      Let_def split: option.splits)

lemma to_double_not_NaN: "to_double x \<noteq> NaN"
  by (simp add: to_double_def Let_def)

lemma compare_gt: "num_gt r t = spec_compare Gt r t"
  by (cases r; cases t) (auto simp: num_gt_def spec_compare_def spec_below_def)

lemma compare_ge: "num_ge r t = spec_compare Ge r t"
  by (cases r; cases t) (auto simp: num_ge_def spec_compare_def spec_below_def)

lemma compare_lt: "num_lt r t = spec_compare Lt r t"
  by (cases r; cases t) (auto simp: spec_compare_def spec_below_def)

lemma compare_le: "num_le r t = spec_compare Le r t"
  by (cases r; cases t) (auto simp: num_le_def spec_compare_def spec_below_def)

lemma compare_eq: "num_eq r t = spec_compare Eq r t"
  by (cases r; cases t) (auto simp: spec_compare_def)

lemma shouldInvest_well_formed:
  assumes "spec_parse_condition (investmentCondition (lendingProtocol strategy)) = Some (opc, t)"
  shows "shouldInvestInLendingProtocol strategy r
       = spec_compare opc r (to_double (spec_decimal_value t))"
proof -
  from parse_condition_match [OF assms] obtain ops where dec: "spec_is_decimal t"
    and m: "regex_match (investmentCondition (lendingProtocol strategy)) = Some (ops, t)"
    and ops: "case opc of Gt \<Rightarrow> ops = [62] | Ge \<Rightarrow> ops = [62, 61] | Lt \<Rightarrow> ops = [60]
               | Le \<Rightarrow> ops = [60, 61] | Eq \<Rightarrow> ops = [61] \<or> ops = [61, 61]"
    by blast
  have pf: "parseFloat t = to_double (spec_decimal_value t)"
    using dec by (rule parseFloat_decimal)
  show ?thesis
    using ops
    by (cases opc)
       (auto simp: shouldInvest_unfold m pf compare_gt compare_ge compare_lt
          compare_le compare_eq)
qed

lemma shouldInvest_contains:
  assumes "shouldInvestInLendingProtocol strategy r"
  shows "\<exists>w. sublist w (investmentCondition (lendingProtocol strategy)) \<and> spec_well_formed w"
proof -
  let ?s = "investmentCondition (lendingProtocol strategy)"
  from assms obtain ops num where m: "regex_match ?s = Some (ops, num)"
    by (auto simp: shouldInvest_unfold split: option.splits)
  from assms m have ops: "ops = [62] \<or> ops = [62, 61] \<or> ops = [60] \<or> ops = [60, 61]
      \<or> ops = [61, 61] \<or> ops = [61]"
    by (auto simp: shouldInvest_unfold split: if_splits)
  have "parseFloat num \<noteq> NaN"
  proof
    assume "parseFloat num = NaN"
    with assms m show False
      by (cases r)
         (auto simp: shouldInvest_unfold num_gt_def num_ge_def num_le_def
            split: if_splits)
  qed
  from parseFloat_prefix [OF this] obtain d rest' where num: "num = d @ rest'"
    and dec: "spec_is_decimal d" by blast
  from regex_match_Some [OF m] obtain pre t where s: "?s = pre @ t"
    and mh: "match_here t = Some (ops, num)" by blast
  from match_here_Some [OF mh] obtain a p y ws1 ws2 rest
    where t: "t = a # p # y # ws1 @ ops @ ws2 @ num @ rest"
      and letters: "letter_ci 65 a \<and> letter_ci 80 p \<and> letter_ci 89 y"
      and ws: "list_all is_space ws1" "list_all is_space ws2"
    by blast
  let ?w = "a # p # y # ws1 @ ops @ ws2 @ d"
  have "?s = pre @ ?w @ (rest' @ rest)" using s t num by simp
  then have "sublist ?w ?s" unfolding sublist_def by blast
  moreover have "spec_well_formed ?w"
    using letters ws ops dec by (rule parse_condition_built)
  ultimately show ?thesis by blast
qed

lemma num_lt_NaN: "\<not> num_lt a NaN"
  by (cases a) simp_all

lemma nan_rate_never_invests: "\<not> shouldInvestInLendingProtocol strategy NaN"
  by (auto simp: shouldInvest_unfold num_gt_def num_ge_def num_le_def
      num_lt_NaN Let_def split: option.splits)

lemma well_formed_head: "spec_well_formed w \<Longrightarrow> w \<noteq> [] \<and> letter_ci 65 (hd w)"
  by (cases w)
     (auto simp: spec_well_formed_def spec_parse_condition_def split: list.splits if_splits)

lemma sublist_head: "sublist w s \<Longrightarrow> w \<noteq> [] \<Longrightarrow> hd w \<in> set s"
  by (cases w) (auto simp: sublist_def)

subsection \<open>Occurrences are the matches of the pattern\<close>

text \<open>
  A string is an occurrence exactly when the matcher, run on it, consumes it whole; the
  match at the head of a string is the longest prefix that is an occurrence; and the
  leftmost match of the pattern is the first occurrence among the substrings.
\<close>

lemma find_append_list:
  "find P (xs @ ys) = (case find P xs of None \<Rightarrow> find P ys | Some x \<Rightarrow> Some x)"
  by (induction xs) simp_all

lemma find_longest_prefix:
  assumes "prefix u s" and "P u" and "\<And>v. prefix v s \<Longrightarrow> P v \<Longrightarrow> length v \<le> length u"
  shows "find P (rev (prefixes s)) = Some u"
  using assms
proof (induction s rule: rev_induct)
  case Nil
  then show ?case by simp
next
  case (snoc x xs)
  show ?case
  proof (cases "P (xs @ [x])")
    case True
    have "length (xs @ [x]) \<le> length u" using True by (intro snoc.prems(3)) simp_all
    moreover have "length u \<le> length (xs @ [x])" using snoc.prems(1) by (rule prefix_length_le)
    ultimately have len: "length u = length (xs @ [x])" by simp
    from snoc.prems(1) obtain zs where zs: "xs @ [x] = u @ zs" by (auto simp: prefix_def)
    then have "length (xs @ [x]) = length u + length zs" by (metis length_append)
    with len have "zs = []" by simp
    with zs have "u = xs @ [x]" by simp
    then show ?thesis using True by simp
  next
    case False
    then have "u \<noteq> xs @ [x]" using snoc.prems(2) by auto
    with snoc.prems(1) have pre: "prefix u xs" by simp
    have "find P (rev (prefixes xs)) = Some u"
    proof (rule snoc.IH [OF pre snoc.prems(2)])
      fix v assume "prefix v xs" and "P v"
      then show "length v \<le> length u" using snoc.prems(3) [of v] by simp
    qed
    then show ?thesis using False by simp
  qed
qed

lemma find_no_prefix:
  assumes "\<And>v. prefix v s \<Longrightarrow> \<not> P v"
  shows "find P (rev (prefixes s)) = None"
  using assms by (auto simp: find_None_iff in_set_prefixes)

lemma find_Some_in: "find P xs = Some u \<Longrightarrow> u \<in> set xs \<and> P u"
  by (induction xs) (auto split: if_splits)

lemma find_prefix_is_prefix:
  "find P (rev (prefixes s)) = Some u \<Longrightarrow> prefix u s \<and> P u"
  using find_Some_in [of P "rev (prefixes s)" u] by (simp add: in_set_prefixes)

lemma dropWhile_append_ne:
  "dropWhile P xs \<noteq> [] \<Longrightarrow> dropWhile P (xs @ ys) = dropWhile P xs @ ys"
  by (induction xs) (auto split: if_splits)

lemma takeWhile_append_ne:
  "dropWhile P xs \<noteq> [] \<Longrightarrow> takeWhile P (xs @ ys) = takeWhile P xs"
  by (induction xs) (auto split: if_splits)

lemma takeWhile_run:
  assumes "list_all P ws" and "xs = [] \<or> \<not> P (hd xs)"
  shows "takeWhile P (ws @ xs) = ws"
  using assms by (induction ws) (simp_all, cases xs, simp_all)

lemma dropWhile_run_end:
  assumes "list_all P ws" and "xs = [] \<or> \<not> P (hd xs)"
  shows "dropWhile P (ws @ xs) = xs"
  using assms by (induction ws) (simp_all, cases xs, simp_all)

lemma class_space: "(spec_class c = Space) = is_space c"
  by (auto simp: spec_class_def)

lemma class_operator: "(spec_class c = Operator) = is_opchar c"
  by (auto simp: spec_class_def dest: opchar_not_space)

lemma class_digits: "(spec_class c = Digits) = is_numchar c"
  by (auto simp: spec_class_def dest: numchar_not_space numchar_not_opchar)

lemma remdups_adj_run:
  assumes "xs \<noteq> []"
  shows "remdups_adj (map f xs)
       = f (hd xs) # remdups_adj (map f (dropWhile (\<lambda>x. f x = f (hd xs)) xs))"
proof -
  from assms obtain c cs where xs: "xs = c # cs" by (cases xs) auto
  have "remdups_adj (map f xs) = f c # remdups_adj (dropWhile (\<lambda>y. y = f c) (map f cs))"
    using xs by (simp add: remdups_adj_Cons')
  also have "dropWhile (\<lambda>y. y = f c) (map f cs) = map f (dropWhile (\<lambda>x. f x = f c) cs)"
    by (simp add: dropWhile_map comp_def)
  finally show ?thesis using xs by simp
qed

lemma run_space:
  assumes "xs \<noteq> []" and "is_space (hd xs)"
  shows "remdups_adj (map spec_class xs)
       = Space # remdups_adj (map spec_class (dropWhile is_space xs))"
proof -
  have h: "spec_class (hd xs) = Space" using assms(2) by (simp add: class_space)
  show ?thesis
    by (subst remdups_adj_run [OF assms(1)]) (simp only: h class_space)
qed

lemma run_operator:
  assumes "xs \<noteq> []" and "is_opchar (hd xs)"
  shows "remdups_adj (map spec_class xs)
       = Operator # remdups_adj (map spec_class (dropWhile is_opchar xs))"
proof -
  have h: "spec_class (hd xs) = Operator" using assms(2) by (simp add: class_operator)
  show ?thesis
    by (subst remdups_adj_run [OF assms(1)]) (simp only: h class_operator)
qed

lemma run_digits:
  assumes "xs \<noteq> []" and "is_numchar (hd xs)"
  shows "remdups_adj (map spec_class xs)
       = Digits # remdups_adj (map spec_class (dropWhile is_numchar xs))"
proof -
  have h: "spec_class (hd xs) = Digits" using assms(2) by (simp add: class_digits)
  show ?thesis
    by (subst remdups_adj_run [OF assms(1)]) (simp only: h class_digits)
qed

lemma run_head:
  "xs \<noteq> [] \<Longrightarrow> \<exists>ks. remdups_adj (map spec_class xs) = spec_class (hd xs) # ks"
  using remdups_adj_run [of xs spec_class] by blast

lemma dropWhile_head: "xs = [] \<or> \<not> P (hd xs) \<Longrightarrow> dropWhile P xs = xs"
  by (cases xs) auto

lemma takeWhile_head: "takeWhile P xs \<noteq> [] \<longleftrightarrow> xs \<noteq> [] \<and> P (hd xs)"
  by (cases xs) auto

lemma runs_digits:
  "remdups_adj (map spec_class r3) = [Digits]
     \<longleftrightarrow> r3 \<noteq> [] \<and> dropWhile is_numchar r3 = []"
proof (cases "r3 = []")
  case True
  then show ?thesis by simp
next
  case ne: False
  show ?thesis
  proof (cases "is_numchar (hd r3)")
    case True
    show ?thesis using ne by (simp add: run_digits [OF ne True])
  next
    case False
    then have "spec_class (hd r3) \<noteq> Digits" by (simp add: class_digits)
    moreover have "hd r3 \<in> set r3" using ne by simp
    ultimately show ?thesis using run_head [OF ne] False by auto
  qed
qed

lemma runs_space_digits:
  "remdups_adj (map spec_class r2) \<in> {[Digits], [Space, Digits]}
     \<longleftrightarrow> dropWhile is_space r2 \<noteq> [] \<and> dropWhile is_numchar (dropWhile is_space r2) = []"
proof (cases "r2 = []")
  case True
  then show ?thesis by simp
next
  case ne: False
  show ?thesis
  proof (cases "is_space (hd r2)")
    case True
    show ?thesis
      using runs_digits [of "dropWhile is_space r2"] by (simp add: run_space [OF ne True])
  next
    case False
    then have c: "spec_class (hd r2) \<noteq> Space" by (simp add: class_space)
    have d: "dropWhile is_space r2 = r2" using False by (simp add: dropWhile_head)
    from run_head [OF ne] c have "remdups_adj (map spec_class r2) \<noteq> [Space, Digits]" by auto
    then show ?thesis using runs_digits [of r2] ne unfolding d by simp
  qed
qed

lemma runs_operator:
  "remdups_adj (map spec_class r1) \<in> {[Operator, Digits], [Operator, Space, Digits]}
     \<longleftrightarrow> takeWhile is_opchar r1 \<noteq> []
         \<and> dropWhile is_space (dropWhile is_opchar r1) \<noteq> []
         \<and> dropWhile is_numchar (dropWhile is_space (dropWhile is_opchar r1)) = []"
proof (cases "r1 = []")
  case True
  then show ?thesis by simp
next
  case ne: False
  show ?thesis
  proof (cases "is_opchar (hd r1)")
    case True
    have "takeWhile is_opchar r1 \<noteq> []" using ne True by (simp only: takeWhile_head) simp
    then show ?thesis
      using runs_space_digits [of "dropWhile is_opchar r1"]
      by (simp add: run_operator [OF ne True])
  next
    case False
    then have c: "spec_class (hd r1) \<noteq> Operator" by (simp add: class_operator)
    have "takeWhile is_opchar r1 = []" using False by (simp add: takeWhile_eq_Nil_iff)
    moreover from run_head [OF ne] c
    have "remdups_adj (map spec_class r1) \<notin> {[Operator, Digits], [Operator, Space, Digits]}"
      by auto
    ultimately show ?thesis by simp
  qed
qed

lemma runs_occurrence:
  "remdups_adj (map spec_class r) \<in>
       set [[Operator, Digits], [Space, Operator, Digits],
            [Operator, Space, Digits], [Space, Operator, Space, Digits]]
     \<longleftrightarrow> takeWhile is_opchar (dropWhile is_space r) \<noteq> []
         \<and> dropWhile is_space (dropWhile is_opchar (dropWhile is_space r)) \<noteq> []
         \<and> dropWhile is_numchar
             (dropWhile is_space (dropWhile is_opchar (dropWhile is_space r))) = []"
proof (cases "r = []")
  case True
  then show ?thesis by simp
next
  case ne: False
  show ?thesis
  proof (cases "is_space (hd r)")
    case True
    show ?thesis
      using runs_operator [of "dropWhile is_space r"] by (simp add: run_space [OF ne True])
  next
    case False
    then have c: "spec_class (hd r) \<noteq> Space" by (simp add: class_space)
    have d: "dropWhile is_space r = r" using False by (simp add: dropWhile_head)
    from run_head [OF ne] c
    have "remdups_adj (map spec_class r) \<noteq> [Space, Operator, Digits]"
      and "remdups_adj (map spec_class r) \<noteq> [Space, Operator, Space, Digits]" by auto
    then show ?thesis using runs_operator [of r] unfolding d by simp
  qed
qed

lemma occurrence_iff:
  "spec_occurrence u \<longleftrightarrow>
     (\<exists>a p y r. u = a # p # y # r
        \<and> letter_ci 65 a \<and> letter_ci 80 p \<and> letter_ci 89 y
        \<and> takeWhile is_opchar (dropWhile is_space r) \<noteq> []
        \<and> dropWhile is_space (dropWhile is_opchar (dropWhile is_space r)) \<noteq> []
        \<and> dropWhile is_numchar
            (dropWhile is_space (dropWhile is_opchar (dropWhile is_space r))) = [])"
  unfolding spec_occurrence_def runs_occurrence by (auto split: list.splits)

lemma occurrence_prefix:
  assumes "spec_occurrence v"
  shows "\<exists>a p y r ops num. v @ tail = a # p # y # r
     \<and> match_here (v @ tail) = Some (ops, num)
     \<and> length v + length (dropWhile is_numchar
           (dropWhile is_space (dropWhile is_opchar (dropWhile is_space r))))
         \<le> length (v @ tail)"
proof -
  from assms obtain a p y rv where v: "v = a # p # y # rv"
    and letters: "letter_ci 65 a \<and> letter_ci 80 p \<and> letter_ci 89 y"
    and x1: "takeWhile is_opchar (dropWhile is_space rv) \<noteq> []"
    and x2: "dropWhile is_space (dropWhile is_opchar (dropWhile is_space rv)) \<noteq> []"
    and x3: "dropWhile is_numchar
        (dropWhile is_space (dropWhile is_opchar (dropWhile is_space rv))) = []"
    unfolding occurrence_iff by blast
  define r1 where "r1 = dropWhile is_space rv"
  define r2 where "r2 = dropWhile is_opchar r1"
  define r3 where "r3 = dropWhile is_space r2"
  have "takeWhile is_opchar r1 \<noteq> []" using x1 unfolding r1_def .
  then have ne1: "r1 \<noteq> []" by auto
  have ne3: "r3 \<noteq> []" using x2 unfolding r3_def r2_def r1_def .
  have ne2: "r2 \<noteq> []" using ne3 unfolding r3_def by auto
  have all3: "list_all is_numchar r3"
    using x3 unfolding r3_def r2_def r1_def by (simp add: list_all_iff)
  have d1: "dropWhile is_space (rv @ tail) = r1 @ tail"
    unfolding r1_def by (rule dropWhile_append_ne) (use ne1 r1_def in simp)
  have t1: "takeWhile is_opchar (r1 @ tail) = takeWhile is_opchar r1"
    by (rule takeWhile_append_ne) (use ne2 r2_def in simp)
  have d2: "dropWhile is_opchar (r1 @ tail) = r2 @ tail"
    unfolding r2_def by (rule dropWhile_append_ne) (use ne2 r2_def in simp)
  have d3: "dropWhile is_space (r2 @ tail) = r3 @ tail"
    unfolding r3_def by (rule dropWhile_append_ne) (use ne3 r3_def in simp)
  have t3: "takeWhile is_numchar (r3 @ tail) = r3 @ takeWhile is_numchar tail"
    using all3 by (simp add: list_all_iff)
  have d4: "dropWhile is_numchar (r3 @ tail) = dropWhile is_numchar tail"
    using all3 by (simp add: list_all_iff)
  have m: "match_here (v @ tail)
      = Some (takeWhile is_opchar r1, r3 @ takeWhile is_numchar tail)"
    using letters x1 ne3
    by (simp add: v match_here_def Let_def d1 t1 d2 d3 t3 r1_def [symmetric])
  have "length (dropWhile is_numchar tail) \<le> length tail" by (rule length_dropWhile_le)
  then have l: "length v + length (dropWhile is_numchar
      (dropWhile is_space (dropWhile is_opchar (dropWhile is_space (rv @ tail)))))
      \<le> length (v @ tail)"
    by (simp add: d1 d2 d3 d4)
  have "v @ tail = a # p # y # (rv @ tail)" by (simp add: v)
  with m l show ?thesis by blast
qed

lemma letter_not_opchar:
  "letter_ci 65 c \<or> letter_ci 80 c \<or> letter_ci 89 c \<Longrightarrow> \<not> is_opchar c"
  by (auto simp: letter_ci_def is_opchar_def)

lemma letter_not_numchar:
  "letter_ci 65 c \<or> letter_ci 80 c \<or> letter_ci 89 c \<Longrightarrow> \<not> is_numchar c"
  by (auto simp: letter_ci_def is_numchar_def is_digit_def)

lemma space_not_numchar: "is_space c \<Longrightarrow> \<not> is_numchar c"
  using numchar_not_space by blast

lemma opchar_not_numchar: "is_opchar c \<Longrightarrow> \<not> is_numchar c"
  using numchar_not_opchar by blast

lemma filter_none: "list_all P xs \<Longrightarrow> (\<And>x. P x \<Longrightarrow> \<not> Q x) \<Longrightarrow> filter Q xs = []"
  by (induction xs) auto

lemma filter_all: "list_all P xs \<Longrightarrow> filter P xs = xs"
  by (induction xs) auto

lemma match_here_occurrence:
  assumes "match_here s = Some (ops, num)"
  shows "\<exists>u. prefix u s \<and> spec_occurrence u
     \<and> filter is_opchar u = ops \<and> filter is_numchar u = num
     \<and> (\<forall>v. prefix v s \<longrightarrow> spec_occurrence v \<longrightarrow> length v \<le> length u)"
proof -
  from assms obtain a p y r where s: "s = a # p # y # r"
    and letters: "letter_ci 65 a \<and> letter_ci 80 p \<and> letter_ci 89 y"
    and ops: "ops = takeWhile is_opchar (dropWhile is_space r)"
    and num: "num = takeWhile is_numchar
        (dropWhile is_space (dropWhile is_opchar (dropWhile is_space r)))"
    and ne: "ops \<noteq> []" "num \<noteq> []"
    by (auto simp: match_here_def Let_def split: list.splits if_splits)
  define ws1 where "ws1 = takeWhile is_space r"
  define r1 where "r1 = dropWhile is_space r"
  define r2 where "r2 = dropWhile is_opchar r1"
  define ws2 where "ws2 = takeWhile is_space r2"
  define r3 where "r3 = dropWhile is_space r2"
  define rest where "rest = dropWhile is_numchar r3"
  define u where "u = a # p # y # ws1 @ ops @ ws2 @ num"
  have e1: "r = ws1 @ r1" by (simp add: ws1_def r1_def)
  have e2: "r1 = ops @ r2" by (simp add: ops r1_def r2_def)
  have e3: "r2 = ws2 @ r3" by (simp add: ws2_def r3_def)
  have e4: "r3 = num @ rest" by (simp add: num rest_def r3_def r2_def r1_def)
  have su: "s = u @ rest" using s e1 e2 e3 e4 by (simp add: u_def)
  have a1: "list_all is_space ws1" and a2: "list_all is_space ws2"
    by (simp_all add: ws1_def ws2_def list_all_takeWhile)
  have a3: "list_all is_opchar ops" and a4: "list_all is_numchar num"
    by (simp_all add: ops num list_all_takeWhile)
  have hops: "is_opchar (hd ops)" using ne(1) a3 by (cases ops) simp_all
  have hnum: "is_numchar (hd num)" using ne(2) a4 by (cases num) simp_all
  have hws2: "\<not> is_opchar (hd (ws2 @ num))"
    using a2 hnum ne(2)
    by (cases ws2) (auto dest: space_not_opchar numchar_not_opchar)
  have q1: "dropWhile is_space (ws1 @ ops @ ws2 @ num) = ops @ ws2 @ num"
    using a1 ne(1) hops by (intro dropWhile_run_end) (auto dest: opchar_not_space)
  have q2: "takeWhile is_opchar (ops @ ws2 @ num) = ops"
    using a3 hws2 by (intro takeWhile_run) auto
  have q3: "dropWhile is_opchar (ops @ ws2 @ num) = ws2 @ num"
    using a3 hws2 by (intro dropWhile_run_end) auto
  have q4: "dropWhile is_space (ws2 @ num) = num"
    using a2 hnum by (intro dropWhile_run_end) (auto dest: numchar_not_space)
  have occ: "spec_occurrence u"
    unfolding occurrence_iff u_def using letters ne
    by (simp add: q1 q2 q3 q4 dropWhile_all [OF a4]
        del: dropWhile_eq_Nil_conv takeWhile_eq_all_conv)
  have f1: "filter is_opchar u = ops"
    using letters a1 a2 a3 a4 unfolding u_def
    by (simp add: letter_not_opchar filter_all filter_none [OF a1 space_not_opchar]
        filter_none [OF a2 space_not_opchar] filter_none [OF a4 numchar_not_opchar])
  have f2: "filter is_numchar u = num"
    using letters a1 a2 a3 a4 unfolding u_def
    by (simp add: letter_not_numchar filter_all filter_none [OF a1 space_not_numchar]
        filter_none [OF a2 space_not_numchar] filter_none [OF a3 opchar_not_numchar])
  have longest: "length v \<le> length u" if pv: "prefix v s" and ov: "spec_occurrence v" for v
  proof -
    from pv obtain tail where t: "s = v @ tail" by (auto simp: prefix_def)
    from occurrence_prefix [OF ov, of tail] obtain a' p' y' r'
      where "v @ tail = a' # p' # y' # r'"
        and l: "length v + length (dropWhile is_numchar
           (dropWhile is_space (dropWhile is_opchar (dropWhile is_space r'))))
         \<le> length (v @ tail)"
      by blast
    with t s have "r' = r" by simp
    with l have "length v + length rest \<le> length (v @ tail)"
      by (simp add: rest_def r3_def r2_def r1_def)
    moreover have "length (v @ tail) = length (u @ rest)" using t su by simp
    ultimately show ?thesis by (simp only: length_append)
  qed
  have "prefix u s" using su by (simp add: prefix_def)
  with occ f1 f2 longest show ?thesis by blast
qed

lemma match_here_no_occurrence:
  assumes "match_here s = None" and "prefix v s"
  shows "\<not> spec_occurrence v"
proof
  assume ov: "spec_occurrence v"
  from assms(2) obtain tail where t: "s = v @ tail" by (auto simp: prefix_def)
  from occurrence_prefix [OF ov, of tail] t assms(1) show False by auto
qed

lemma candidates_Nil: "spec_candidates [] = [[]]"
  by (simp add: spec_candidates_def)

lemma candidates_Cons:
  "spec_candidates (c # cs) = rev (prefixes (c # cs)) @ spec_candidates cs"
  by (simp add: spec_candidates_def)

lemma first_occurrence_None:
  "regex_match s = None \<Longrightarrow> spec_first_occurrence s = None"
proof (induction s)
  case Nil
  show ?case by (simp add: spec_first_occurrence_def candidates_Nil spec_occurrence_def)
next
  case (Cons c cs)
  from Cons.prems have m: "match_here (c # cs) = None" and "regex_match cs = None"
    by (auto split: option.splits)
  then have ih: "find spec_occurrence (spec_candidates cs) = None"
    using Cons.IH by (simp add: spec_first_occurrence_def)
  have "find spec_occurrence (rev (prefixes (c # cs))) = None"
    by (rule find_no_prefix) (rule match_here_no_occurrence [OF m])
  with ih show ?case
    unfolding spec_first_occurrence_def candidates_Cons find_append_list by simp
qed

lemma first_occurrence_Some:
  "regex_match s = Some (ops, num) \<Longrightarrow>
     \<exists>u. spec_first_occurrence s = Some u
        \<and> filter is_opchar u = ops \<and> filter is_numchar u = num"
proof (induction s)
  case Nil
  then show ?case by simp
next
  case (Cons c cs)
  show ?case
  proof (cases "match_here (c # cs)")
    case None
    with Cons.prems have "regex_match cs = Some (ops, num)" by simp
    from Cons.IH [OF this] obtain u where u: "find spec_occurrence (spec_candidates cs) = Some u"
      and f: "filter is_opchar u = ops" "filter is_numchar u = num"
      by (auto simp: spec_first_occurrence_def)
    have "find spec_occurrence (rev (prefixes (c # cs))) = None"
      by (rule find_no_prefix) (rule match_here_no_occurrence [OF None])
    with u have "spec_first_occurrence (c # cs) = Some u"
      unfolding spec_first_occurrence_def candidates_Cons find_append_list by simp
    with f show ?thesis by blast
  next
    case (Some m)
    with Cons.prems have m: "match_here (c # cs) = Some (ops, num)" by simp
    from match_here_occurrence [OF m] obtain u where pu: "prefix u (c # cs)"
      and ou: "spec_occurrence u"
      and f: "filter is_opchar u = ops" "filter is_numchar u = num"
      and longest: "\<And>v. prefix v (c # cs) \<Longrightarrow> spec_occurrence v \<Longrightarrow> length v \<le> length u"
      by blast
    have "find spec_occurrence (rev (prefixes (c # cs))) = Some u"
      using pu ou longest by (rule find_longest_prefix)
    then have "spec_first_occurrence (c # cs) = Some u"
      unfolding spec_first_occurrence_def candidates_Cons find_append_list by simp
    with f show ?thesis by blast
  qed
qed

subsection \<open>The evaluator on every string\<close>

lemma prefix_longer:
  assumes "prefix v (t @ rest)" and "length t < length v"
  shows "rest \<noteq> [] \<and> (\<exists>w. v = t @ hd rest # w)"
proof -
  from assms(1) have "prefix v t \<or> (\<exists>us. v = t @ us \<and> prefix us rest)"
    by (simp add: prefix_append)
  moreover have "\<not> prefix v t" using assms(2) prefix_length_le [of v t] by auto
  ultimately obtain us where v: "v = t @ us" and p: "prefix us rest" by blast
  from v assms(2) have "us \<noteq> []" by auto
  then obtain x w where us: "us = x # w" by (cases us) auto
  with p obtain rest' where "rest = x # rest'" by (cases rest) auto
  with v us show ?thesis by auto
qed

lemma fraction_decimal:
  assumes "list_all is_digit ip" and "list_all is_digit fp" and "ip \<noteq> [] \<or> fp \<noteq> []"
  shows "spec_is_decimal (ip @ 46 # fp)"
proof -
  have "list_all is_numchar ip" "list_all is_numchar fp"
    using assms(1,2) by (auto simp: list_all_iff dest: digit_numchar)
  moreover have "list_ex is_digit (ip @ 46 # fp)"
    using assms by (cases ip; cases fp) (auto simp: list_ex_iff)
  ultimately show ?thesis
    using assms(1,2) by (simp add: spec_is_decimal_def no_dot_filter is_numchar_def)
qed

lemma two_dots_not_decimal: "\<not> spec_is_decimal (xs @ 46 # ys @ 46 # zs)"
  by (simp add: spec_is_decimal_def)

lemma parseFloat_longest:
  assumes num: "list_all is_numchar num"
  shows "parseFloat num
       = (case spec_longest_decimal num of
            None \<Rightarrow> NaN
          | Some t \<Rightarrow> to_double (spec_decimal_value t))"
proof -
  define ip where "ip = takeWhile is_digit num"
  define after where "after = dropWhile is_digit num"
  have n: "num = ip @ after" by (simp add: ip_def after_def)
  have ipd: "list_all is_digit ip" by (simp add: ip_def list_all_takeWhile)
  show ?thesis
  proof (cases after)
    case Nil
    with n ipd have all: "list_all is_digit num" by simp
    show ?thesis
    proof (cases "num = []")
      case True
      then show ?thesis
        by (simp add: parseFloat_def spec_longest_decimal_def spec_is_decimal_def)
    next
      case False
      with all have dec: "spec_is_decimal num" by (rule digits_decimal)
      have "find spec_is_decimal (rev (prefixes num)) = Some num"
        by (rule find_longest_prefix) (use dec in \<open>auto dest: prefix_length_le\<close>)
      then show ?thesis
        using parseFloat_decimal [OF dec] by (simp add: spec_longest_decimal_def)
    qed
  next
    case (Cons c r)
    have "\<not> is_digit c" using Cons hd_dropWhile [of is_digit num] by (simp add: after_def)
    moreover have "is_numchar c" using num n Cons by simp
    ultimately have c: "c = 46" by (rule numchar_cases [rotated])
    define fp where "fp = takeWhile is_digit r"
    define rest where "rest = dropWhile is_digit r"
    define t0 where "t0 = ip @ 46 # fp"
    have r: "r = fp @ rest" by (simp add: fp_def rest_def)
    have fpd: "list_all is_digit fp" by (simp add: fp_def list_all_takeWhile)
    have nt: "num = t0 @ rest" using n Cons c r by (simp add: t0_def)
    have hrest: "rest \<noteq> [] \<Longrightarrow> hd rest = 46"
    proof -
      assume ne: "rest \<noteq> []"
      then have "\<not> is_digit (hd rest)" using hd_dropWhile [of is_digit r] by (simp add: rest_def)
      moreover have "is_numchar (hd rest)" using num nt ne by (cases rest) simp_all
      ultimately show "hd rest = 46" by (rule numchar_cases [rotated])
    qed
    have bound: "length v \<le> length t0" if pv: "prefix v num" and dv: "spec_is_decimal v" for v
    proof (rule ccontr)
      assume "\<not> length v \<le> length t0"
      then have "length t0 < length v" by simp
      with pv nt prefix_longer [of v t0 rest] obtain w where ne: "rest \<noteq> []"
        and v: "v = t0 @ hd rest # w" by auto
      from hrest [OF ne] v have "v = ip @ 46 # fp @ 46 # w" by (simp add: t0_def)
      with dv two_dots_not_decimal show False by simp
    qed
    have pf: "parseFloat num = (if ip = [] \<and> fp = [] then NaN
        else to_double (of_nat (digits_value ip) + of_nat (digits_value fp) / 10 ^ length fp))"
      using Cons c
      by (simp add: parseFloat_def Let_def ip_def [symmetric] after_def [symmetric]
          fp_def [symmetric])
    show ?thesis
    proof (cases "ip = [] \<and> fp = []")
      case True
      have "\<not> spec_is_decimal v" if pv: "prefix v num" for v
      proof
        assume dv: "spec_is_decimal v"
        from bound [OF pv dv] True have "length v \<le> 1" by (simp add: t0_def)
        moreover from pv nt True have "prefix v (46 # rest)" by (simp add: t0_def)
        ultimately have "v = [] \<or> v = [46]" by (cases v) (auto simp: prefix_Cons)
        with dv show False by (auto simp: spec_is_decimal_def is_digit_def)
      qed
      then have "find spec_is_decimal (rev (prefixes num)) = None" by (rule find_no_prefix)
      with pf True show ?thesis by (simp add: spec_longest_decimal_def)
    next
      case False
      then have ne: "ip \<noteq> [] \<or> fp \<noteq> []" by simp
      have dec: "spec_is_decimal t0" unfolding t0_def using ipd fpd ne by (rule fraction_decimal)
      have "prefix t0 num" using nt by (simp add: prefix_def)
      then have "find spec_is_decimal (rev (prefixes num)) = Some t0"
        using dec bound by (rule find_longest_prefix)
      moreover have "spec_decimal_value t0
          = of_nat (digits_value ip) + of_nat (digits_value fp) / 10 ^ length fp"
        unfolding t0_def using ipd fpd by (rule decimal_value_fraction)
      ultimately show ?thesis using pf False by (simp add: spec_longest_decimal_def)
    qed
  qed
qed

lemma regex_match_numchars:
  assumes "regex_match s = Some (ops, num)"
  shows "list_all is_numchar num"
proof -
  from regex_match_Some [OF assms] obtain pre t where "match_here t = Some (ops, num)"
    by blast
  from match_here_Some [OF this] show ?thesis by blast
qed

lemma try_evaluates:
  "shouldInvest_try (Some s) r = Inr (spec_evaluate s r)"
proof (cases "regex_match s")
  case None
  then show ?thesis
    by (simp add: shouldInvest_try_def spec_evaluate_def first_occurrence_None)
next
  case (Some m)
  obtain ops num where m: "m = (ops, num)" by (cases m)
  with Some have rm: "regex_match s = Some (ops, num)" by simp
  from first_occurrence_Some [OF rm] obtain u where u: "spec_first_occurrence s = Some u"
    and f: "filter is_opchar u = ops" "filter is_numchar u = num" by blast
  have pf: "parseFloat num
       = (case spec_longest_decimal num of
            None \<Rightarrow> NaN
          | Some t \<Rightarrow> to_double (spec_decimal_value t))"
    using regex_match_numchars [OF rm] by (rule parseFloat_longest)
  have nan: "\<not> num_gt r NaN" "\<not> num_ge r NaN" "\<not> num_lt r NaN" "\<not> num_le r NaN"
    "\<not> num_eq r NaN"
    by (cases r; simp add: num_gt_def num_ge_def num_le_def)+
  show ?thesis
  proof (cases "spec_longest_decimal num")
    case None
    with pf have "parseFloat num = NaN" by simp
    then show ?thesis
      using nan None
      by (simp add: shouldInvest_try_def spec_evaluate_def rm u f Let_def
          split: option.splits)
  next
    case (Some t)
    with pf have "parseFloat num = to_double (spec_decimal_value t)" by simp
    then show ?thesis
      using Some
      by (auto simp: shouldInvest_try_def spec_evaluate_def rm u f Let_def
          spec_operator_def compare_gt compare_ge compare_lt compare_le compare_eq)
  qed
qed

lemma shouldInvest_evaluates:
  "shouldInvestInLendingProtocol strategy r
     = spec_evaluate (investmentCondition (lendingProtocol strategy)) r"
  by (simp add: shouldInvestInLendingProtocol_def shouldInvest_catch_def try_evaluates)

text \<open>
  Three evaluations, of the first occurrence in a condition with text around it, of the
  longest decimal number at the start of digits and dots, and of the result: at the
  rate 7, \<open>if APY >= 6.5.5% now\<close> is read as \<open>APY >= 6.5\<close>, and in \<open>APY > 65\<close> the
  digit behind the 6 belongs to the threshold.
\<close>

lemma first_occurrence_example:
  "spec_first_occurrence (js ''if APY >= 6.5.5% now'') = Some (js ''APY >= 6.5.5'')"
  by (simp add: spec_first_occurrence_def spec_candidates_def js_def spec_occurrence_def
      spec_class_def is_space_def is_opchar_def is_numchar_def is_digit_def letter_ci_def)

lemma longest_decimal_example: "spec_longest_decimal (js ''6.5.5'') = Some (js ''6.5'')"
  by (simp add: spec_longest_decimal_def js_def spec_is_decimal_def is_numchar_def
      is_digit_def)

lemma evaluate_example:
  "spec_evaluate (js ''if APY >= 6.5.5% now'') (Fin 7)
   \<and> \<not> spec_evaluate (js ''APY > 65'') (Fin 7)"
proof -
  have "shouldInvestInLendingProtocol (example_strategy [] (js ''if APY >= 6.5.5% now'')) (Fin 7)"
    by (simp add: shouldInvest_unfold example_strategy_def js_def match_here_def
        is_space_def is_opchar_def is_numchar_def is_digit_def letter_ci_def parseFloat_def
        digits_value_def num_ge_def num_gt_def to_double_13_2)
  moreover
  have "\<not> shouldInvestInLendingProtocol (example_strategy [] (js ''APY > 65'')) (Fin 7)"
    using to_double_nearest [of 6 65 "65 * 2 ^ 46"]
    by (simp add: shouldInvest_unfold example_strategy_def js_def match_here_def
        is_space_def is_opchar_def is_numchar_def is_digit_def letter_ci_def parseFloat_def
        digits_value_def num_gt_def pow2_def)
  ultimately show ?thesis
    by (simp add: shouldInvest_evaluates example_strategy_def)
qed

text \<open>
  C1 (as amended). On every condition string and at every rate, finite or not, the
  evaluator returns a boolean and raises nothing: the \<open>try\<close> block returns on every
  string, and where the strategy holds no string what is raised is caught and the
  result is false. The boolean is fixed by the first occurrence in the string of the
  letters \<open>APY\<close> in either case, optional white space, one or more of \<open>>\<close>, \<open><\<close>, \<open>=\<close>,
  optional white space, and one or more digits and dots (the occurrence that starts
  first and, there, the longest). With no occurrence the result is false; it is false
  as well when the operator characters are not one of \<open>>\<close>, \<open>>=\<close>, \<open><\<close>, \<open><=\<close>, \<open>==\<close>, \<open>=\<close>, and
  when the digits and dots do not begin with a decimal number. Otherwise it is the
  comparison of the rate (\<open>=\<close> and \<open>==\<close> both being equality, every comparison with \<open>NaN\<close>
  false) with the double nearest to the longest decimal number the digits and dots
  begin with; text before and after the occurrence plays no part. In particular, for a
  condition that as a whole has the shape \<open>APY {op} T%\<close> of the specification the result
  is the comparison of the rate with the double nearest to \<open>T\<close>, and for a condition
  that contains no substring of that shape it is false.
\<close>

theorem C1_condition_evaluator:
  "shouldInvest_try (Some cond) r = Inr (spec_evaluate cond r)
   \<and> \<not> shouldInvest_catch None r
   \<and> shouldInvestInLendingProtocol strategy r
       = spec_evaluate (investmentCondition (lendingProtocol strategy)) r
   \<and> (spec_parse_condition (investmentCondition (lendingProtocol strategy)) = Some (opc, t)
      \<longrightarrow> shouldInvestInLendingProtocol strategy r
          = spec_compare opc r (to_double (spec_decimal_value t)))
   \<and> ((\<forall>w. sublist w (investmentCondition (lendingProtocol strategy)) \<longrightarrow> \<not> spec_well_formed w)
      \<longrightarrow> \<not> shouldInvestInLendingProtocol strategy r)"
proof -
  have "\<not> shouldInvest_catch None r"
    by (simp add: shouldInvest_catch_def shouldInvest_try_def)
  then show ?thesis
    using try_evaluates [of cond r] shouldInvest_evaluates [of strategy r]
      shouldInvest_well_formed [of strategy opc t r] shouldInvest_contains [of strategy r]
    by blast
qed

theorem C1_condition_evaluator_witness:
  "shouldInvestInLendingProtocol (example_strategy [] (js ''APY >= 6.5%'')) (Fin 7)
   \<and> \<not> shouldInvestInLendingProtocol (example_strategy [] (js ''APY >= 6.5%'')) NaN
   \<and> shouldInvestInLendingProtocol (example_strategy [] (js ''APY >= 6.5%'')) PosInf
   \<and> \<not> shouldInvestInLendingProtocol (example_strategy [] (js ''apy<7'')) (Fin 7)
   \<and> shouldInvestInLendingProtocol (example_strategy [] (js ''apy<7'')) NegInf
   \<and> \<not> shouldInvestInLendingProtocol (example_strategy [] (js ''hold'')) (Fin 7)"
proof -
  have p1: "spec_parse_condition (investmentCondition (lendingProtocol
        (example_strategy [] (js ''APY >= 6.5%'')))) = Some (Ge, js ''6.5'')"
    by (simp add: example_strategy_def spec_parse_condition_def js_def spec_strip_op_def
        spec_one_op_def spec_is_decimal_def is_space_def is_numchar_def is_digit_def
        letter_ci_def)
  have d1: "spec_decimal_value (js ''6.5'') = 13 / 2"
    by (simp add: spec_decimal_value_def js_def is_digit_def digits_value_def)
  have v1: "to_double (spec_decimal_value (js ''6.5'')) = Fin (13 / 2)"
    unfolding d1 by (rule to_double_13_2)
  have p2: "spec_parse_condition (investmentCondition (lendingProtocol
        (example_strategy [] (js ''apy<7'')))) = Some (Lt, js ''7'')"
    by (simp add: example_strategy_def spec_parse_condition_def js_def spec_strip_op_def
        spec_one_op_def spec_is_decimal_def is_space_def is_numchar_def is_digit_def
        letter_ci_def)
  have d2: "spec_decimal_value (js ''7'') = 7"
    by (simp add: spec_decimal_value_def js_def is_digit_def digits_value_def)
  have v2: "to_double (spec_decimal_value (js ''7'')) = Fin 7"
    unfolding d2 by (rule to_double_7)
  have p3: "\<forall>w. sublist w (investmentCondition (lendingProtocol
        (example_strategy [] (js ''hold'')))) \<longrightarrow> \<not> spec_well_formed w"
  proof (intro allI impI notI)
    fix w
    assume s: "sublist w (investmentCondition (lendingProtocol
        (example_strategy [] (js ''hold''))))" and w: "spec_well_formed w"
    from w have "w \<noteq> [] \<and> letter_ci 65 (hd w)" by (rule well_formed_head)
    with sublist_head [OF s] show False
      by (auto simp: example_strategy_def js_def letter_ci_def)
  qed
  have w1: "shouldInvestInLendingProtocol (example_strategy [] (js ''APY >= 6.5%'')) r
      = spec_compare Ge r (Fin (13 / 2))" for r
    using C1_condition_evaluator
      [where strategy = "example_strategy [] (js ''APY >= 6.5%'')" and opc = Ge
         and t = "js ''6.5''" and r = r] p1
    unfolding v1 by blast
  have w2: "shouldInvestInLendingProtocol (example_strategy [] (js ''apy<7'')) r
      = spec_compare Lt r (Fin 7)" for r
    using C1_condition_evaluator
      [where strategy = "example_strategy [] (js ''apy<7'')" and opc = Lt
         and t = "js ''7''" and r = r] p2
    unfolding v2 by blast
  have w3: "\<not> shouldInvestInLendingProtocol (example_strategy [] (js ''hold'')) (Fin 7)"
    using C1_condition_evaluator
      [where strategy = "example_strategy [] (js ''hold'')" and r = "Fin 7"] p3
    by blast
  have "shouldInvestInLendingProtocol (example_strategy [] (js ''APY >= 6.5%'')) (Fin 7)"
    unfolding w1 by (simp add: spec_compare_def spec_below_def)
  moreover
  have "\<not> shouldInvestInLendingProtocol (example_strategy [] (js ''APY >= 6.5%'')) NaN"
    unfolding w1 by (simp add: spec_compare_def)
  moreover
  have "shouldInvestInLendingProtocol (example_strategy [] (js ''APY >= 6.5%'')) PosInf"
    unfolding w1 by (simp add: spec_compare_def spec_below_def)
  moreover
  have "\<not> shouldInvestInLendingProtocol (example_strategy [] (js ''apy<7'')) (Fin 7)"
    unfolding w2 by (simp add: spec_compare_def spec_below_def)
  moreover
  have "shouldInvestInLendingProtocol (example_strategy [] (js ''apy<7'')) NegInf"
    unfolding w2 by (simp add: spec_compare_def spec_below_def)
  moreover note w3
  ultimately show ?thesis by blast
qed

text \<open>
  Without the amendment the statement fails twice. \<open>APY > 6% now\<close> is not of the shape,
  and at the rate 7 the evaluator returns true, since the pattern is searched anywhere in
  the string. \<open>APY == 6.0000000000000001\<close> is of the shape and 6 is not equal to
  6.0000000000000001, and at the rate 6 the evaluator returns true, since \<open>parseFloat\<close>
  rounds the threshold to the double 6.
\<close>

theorem C1_condition_counterexample:
  "\<not> spec_well_formed (js ''APY > 6% now'')
   \<and> shouldInvestInLendingProtocol (example_strategy [] (js ''APY > 6% now'')) (Fin 7)
   \<and> spec_parse_condition (js ''APY == 6.0000000000000001'')
       = Some (Eq, js ''6.0000000000000001'')
   \<and> spec_decimal_value (js ''6.0000000000000001'') = 60000000000000001 / 10000000000000000
   \<and> \<not> spec_holds Eq (0, 6) (0, spec_decimal_value (js ''6.0000000000000001''))
   \<and> shouldInvestInLendingProtocol (example_strategy [] (js ''APY == 6.0000000000000001''))
       (Fin 6)"
proof -
  have a: "\<not> spec_well_formed (js ''APY > 6% now'')"
    by (simp add: spec_well_formed_def spec_parse_condition_def spec_strip_op_def
        spec_one_op_def spec_is_decimal_def js_def
        is_space_def is_opchar_def is_numchar_def is_digit_def letter_ci_def)
  have b: "shouldInvestInLendingProtocol (example_strategy [] (js ''APY > 6% now'')) (Fin 7)"
    by (simp add: shouldInvest_unfold example_strategy_def js_def match_here_def
        is_space_def is_opchar_def is_numchar_def is_digit_def letter_ci_def parseFloat_def
        digits_value_def num_gt_def to_double_6)
  have c: "spec_parse_condition (js ''APY == 6.0000000000000001'')
       = Some (Eq, js ''6.0000000000000001'')"
    by (simp add: spec_parse_condition_def spec_strip_op_def
        spec_one_op_def spec_is_decimal_def js_def
        is_space_def is_opchar_def is_numchar_def is_digit_def letter_ci_def)
  have d: "spec_decimal_value (js ''6.0000000000000001'')
       = 60000000000000001 / 10000000000000000"
    by (simp add: spec_decimal_value_def js_def is_digit_def digits_value_def)
  have e: "\<not> spec_holds Eq (0, 6) (0, spec_decimal_value (js ''6.0000000000000001''))"
    unfolding d by simp
  have "spec_parse_condition (investmentCondition (lendingProtocol
        (example_strategy [] (js ''APY == 6.0000000000000001''))))
       = Some (Eq, js ''6.0000000000000001'')"
    using c by (simp add: example_strategy_def)
  from shouldInvest_well_formed [OF this, of "Fin 6"]
  have f: "shouldInvestInLendingProtocol
      (example_strategy [] (js ''APY == 6.0000000000000001'')) (Fin 6)"
    unfolding d to_double_near_6 by (simp add: spec_compare_def)
  from a b c d e f show ?thesis by blast
qed


section \<open>Properties of the executor and of the handler\<close>

lemmas eval_defs =
  scenario_env_def scenario_strategy_def scenario_message_def redelivered_message_def
  failing_env_def example_strategy_def js_def
  executeStrategyAction_handler_def handler_body_def respond_def executionPhase_def
  allocationStep_def anchorStep_def initialSteps_def setStrategyReference_def uploadToIPFS_def
  executeFullStrategy_def executeLendingAllocation_def getVaultTotalAssets_def
  getSigner_def encodeApprove_def encodeDeposit_def fits_uint256_def
  amountToDeposit_def lendingPercentage_def bigint_div_def
  shouldInvestInLendingProtocol_def shouldInvest_catch_def shouldInvest_try_def
  match_here_def parseFloat_def to_double_6 digits_value_def
  is_space_def is_opchar_def is_numchar_def is_digit_def letter_ci_def
  num_gt_def num_ge_def num_le_def

lemma scenario_run:
  "executeFullStrategy scenario_env scenario_strategy =
     (Inr (Some \<lparr> hash = ''0xaa'', blockNumber = 7 \<rparr>),
      [VaultTotalAssets ''0xVault'',
       VaultExecute ''0xVault'' [''0xToken'', ''0xPool'']
         [ApproveCall ''0xPool'' 700000, DepositCall 700000] [0, 0]])"
  by (simp add: eval_defs)

lemma scenario_skip:
  "executeFullStrategy (scenario_env\<lparr>currentAPY := Fin 5\<rparr>) scenario_strategy = (Inr None, [])"
  by (simp add: eval_defs)

subsection \<open>The allocation executor\<close>

lemma allocation_success:
  assumes "fst (executeLendingAllocation env strategy vaultAddress lendingPool totalAmount)
      = Inr rc"
  shows "\<exists>amount. amountToDeposit strategy totalAmount = Inr amount
     \<and> snd (executeLendingAllocation env strategy vaultAddress lendingPool totalAmount) =
         [VaultExecute vaultAddress [tokenAddress env, lendingPool]
            [ApproveCall lendingPool amount, DepositCall amount] [0, 0]]"
  using assms
  by (auto simp: executeLendingAllocation_def encodeApprove_def encodeDeposit_def
      split: sum.splits if_splits)

lemma percentage_not_positive:
  assumes "map_of (assetAllocation strategy) ''lendingProtocol'' = None
      \<or> (\<exists>q\<le>0. map_of (assetAllocation strategy) ''lendingProtocol'' = Some (Fin q))
      \<or> map_of (assetAllocation strategy) ''lendingProtocol'' = Some NegInf"
  shows "amountToDeposit strategy x = Inl NoAllocationError"
  using assms by (auto simp: amountToDeposit_def lendingPercentage_def num_le_def)

lemma allocation_stops:
  assumes "amountToDeposit strategy x = Inl err"
  shows "(\<exists>e. executeLendingAllocation env strategy v p x = (Inl e, [])
          \<and> (e = err \<or> getSigner env = Inl e))
     \<and> (getSigner env = Inr sg \<longrightarrow>
          executeLendingAllocation env strategy v p x = (Inl err, []))"
  using assms by (auto simp: executeLendingAllocation_def split: sum.splits)

lemma allocation_reads_entry:
  assumes "map_of (assetAllocation strategy) ''lendingProtocol''
      = map_of (assetAllocation strategy') ''lendingProtocol''"
  shows "executeLendingAllocation env strategy v p x
       = executeLendingAllocation env strategy' v p x"
proof -
  from assms have h: "amountToDeposit strategy x = amountToDeposit strategy' x"
    by (simp add: amountToDeposit_def lendingPercentage_def)
  show ?thesis unfolding executeLendingAllocation_def h by (rule refl)
qed

text \<open>
  C2. Whenever the allocation executor returns a receipt, it has made exactly one call of
  the vault's \<open>execute\<close>, whose batch is two sub-calls in this order: an approval of the
  lending pool for the computed amount, addressed to the token contract, and a deposit of
  the same amount, addressed to the lending pool; both value entries are zero.
\<close>

theorem C2_batch_of_two_calls:
  assumes "fst (executeLendingAllocation env strategy vaultAddress lendingPool totalAmount)
      = Inr rc"
  shows "\<exists>amount. amountToDeposit strategy totalAmount = Inr amount
     \<and> snd (executeLendingAllocation env strategy vaultAddress lendingPool totalAmount) =
         [VaultExecute vaultAddress [tokenAddress env, lendingPool]
            [ApproveCall lendingPool amount, DepositCall amount] [0, 0]]"
  using assms by (rule allocation_success)

theorem C2_batch_of_two_calls_witness:
  "\<exists>amount. amountToDeposit scenario_strategy 1000000 = Inr amount
     \<and> snd (executeLendingAllocation scenario_env scenario_strategy ''0xVault'' ''0xPool''
            1000000) =
         [VaultExecute ''0xVault'' [tokenAddress scenario_env, ''0xPool'']
            [ApproveCall ''0xPool'' amount, DepositCall amount] [0, 0]]"
proof -
  have "fst (executeLendingAllocation scenario_env scenario_strategy ''0xVault'' ''0xPool''
      1000000) = Inr \<lparr> hash = ''0xaa'', blockNumber = 7 \<rparr>"
    by (simp add: eval_defs)
  then show ?thesis by (rule C2_batch_of_two_calls)
qed

text \<open>
  C4 (as amended). When the percentage of the lending protocol is unset, zero or
  negative, the computation of the amount raises the no-allocation error for every
  balance (the witness takes 0 and -5), and the executor fails without having called the
  chain. The executor obtains its signer before it looks at the percentage: its error is
  the no-allocation error when the signer is available, and the signer's error otherwise.
\<close>

theorem C4_no_allocation:
  assumes "map_of (assetAllocation strategy) ''lendingProtocol'' = None
      \<or> (\<exists>q\<le>0. map_of (assetAllocation strategy) ''lendingProtocol'' = Some (Fin q))
      \<or> map_of (assetAllocation strategy) ''lendingProtocol'' = Some NegInf"
  shows "amountToDeposit strategy x = Inl NoAllocationError
     \<and> (\<exists>e. executeLendingAllocation env strategy v p x = (Inl e, [])
          \<and> (e = NoAllocationError \<or> getSigner env = Inl e))
     \<and> (getSigner env = Inr sg \<longrightarrow>
          executeLendingAllocation env strategy v p x = (Inl NoAllocationError, []))"
  using percentage_not_positive [OF assms, of x]
    allocation_stops [of strategy x NoAllocationError env v p sg]
  by simp

theorem C4_no_allocation_witness:
  "amountToDeposit (example_strategy [(''lendingProtocol'', Fin 0)] []) 1000
      = Inl NoAllocationError
   \<and> amountToDeposit (example_strategy [(''lendingProtocol'', Fin (- 5))] []) 1000
      = Inl NoAllocationError
   \<and> executeLendingAllocation scenario_env
        (example_strategy [(''lendingProtocol'', Fin (- 5))] []) ''0xVault'' ''0xPool'' 1000
      = (Inl NoAllocationError, [])"
proof -
  have h0: "map_of (assetAllocation (example_strategy [(''lendingProtocol'', Fin 0)] []))
        ''lendingProtocol'' = None
      \<or> (\<exists>q\<le>0. map_of (assetAllocation (example_strategy [(''lendingProtocol'', Fin 0)] []))
        ''lendingProtocol'' = Some (Fin q))
      \<or> map_of (assetAllocation (example_strategy [(''lendingProtocol'', Fin 0)] []))
        ''lendingProtocol'' = Some NegInf"
    by (simp add: example_strategy_def)
  have h5: "map_of (assetAllocation (example_strategy [(''lendingProtocol'', Fin (- 5))] []))
        ''lendingProtocol'' = None
      \<or> (\<exists>q\<le>0. map_of (assetAllocation
            (example_strategy [(''lendingProtocol'', Fin (- 5))] []))
        ''lendingProtocol'' = Some (Fin q))
      \<or> map_of (assetAllocation (example_strategy [(''lendingProtocol'', Fin (- 5))] []))
        ''lendingProtocol'' = Some NegInf"
    by (simp add: example_strategy_def)
  have sg: "getSigner scenario_env = Inr (Wallet ''0x01'')"
    by (simp add: getSigner_def scenario_env_def)
  from C4_no_allocation [OF h0, of 1000]
    C4_no_allocation [OF h5, of 1000 scenario_env "''0xVault''" "''0xPool''" "Wallet ''0x01''"]
    sg
  show ?thesis by simp
qed

text \<open>
  Without the condition on the signer the statement fails: with no wallet key configured,
  a strategy that allocates 0 percent makes the executor raise the error of the missing
  key, not the no-allocation error.
\<close>

theorem C4_signer_first_counterexample:
  "map_of (assetAllocation (example_strategy [(''lendingProtocol'', Fin 0)] []))
      ''lendingProtocol'' = Some (Fin 0)
   \<and> executeLendingAllocation (scenario_env\<lparr>privateKey := []\<rparr>)
        (example_strategy [(''lendingProtocol'', Fin 0)] []) ''0xVault'' ''0xPool'' 1000
      = (Inl WalletKeyNotConfigured, [])
   \<and> WalletKeyNotConfigured \<noteq> NoAllocationError"
  by (simp add: example_strategy_def executeLendingAllocation_def getSigner_def
      scenario_env_def)

text \<open>
  C10 (as amended). When \<open>assetAllocation\<close> has no entry under the key
  \<open>lendingProtocol\<close>, the computation of the amount raises the no-allocation error and
  the executor fails without having called the chain, whatever the other entries are; its
  error is the no-allocation error when the signer is available, and the signer's error
  otherwise. Two strategies that agree on the entry \<open>lendingProtocol\<close> make the executor
  behave alike.
\<close>

theorem C10_only_lending_entry:
  "(map_of (assetAllocation strategy) ''lendingProtocol'' = None \<longrightarrow>
      amountToDeposit strategy x = Inl NoAllocationError
      \<and> (\<exists>e. executeLendingAllocation env strategy v p x = (Inl e, [])
           \<and> (e = NoAllocationError \<or> getSigner env = Inl e))
      \<and> (getSigner env = Inr sg \<longrightarrow>
           executeLendingAllocation env strategy v p x = (Inl NoAllocationError, [])))
   \<and> (map_of (assetAllocation strategy) ''lendingProtocol''
        = map_of (assetAllocation strategy') ''lendingProtocol'' \<longrightarrow>
      executeLendingAllocation env strategy v p x
        = executeLendingAllocation env strategy' v p x)"
proof (intro conjI impI)
  assume n: "map_of (assetAllocation strategy) ''lendingProtocol'' = None"
  then have a: "amountToDeposit strategy x = Inl NoAllocationError"
    by (simp add: percentage_not_positive)
  then show "amountToDeposit strategy x = Inl NoAllocationError" .
  from allocation_stops [OF a, of env v p sg]
  show "\<exists>e. executeLendingAllocation env strategy v p x = (Inl e, [])
      \<and> (e = NoAllocationError \<or> getSigner env = Inl e)" by blast
  assume "getSigner env = Inr sg"
  with allocation_stops [OF a, of env v p sg]
  show "executeLendingAllocation env strategy v p x = (Inl NoAllocationError, [])" by blast
next
  assume "map_of (assetAllocation strategy) ''lendingProtocol''
        = map_of (assetAllocation strategy') ''lendingProtocol''"
  then show "executeLendingAllocation env strategy v p x
        = executeLendingAllocation env strategy' v p x"
    by (rule allocation_reads_entry)
qed

theorem C10_only_lending_entry_witness:
  "executeLendingAllocation scenario_env
      (example_strategy [(''stablecoin'', Fin 70), (''eth'', Fin 30)] (js ''APY > 6%''))
      ''0xVault'' ''0xPool'' 1000000 = (Inl NoAllocationError, [])
   \<and> executeLendingAllocation scenario_env
      (example_strategy [(''stablecoin'', Fin 70), (''eth'', Fin 30)] (js ''APY > 6%''))
      ''0xVault'' ''0xPool'' 1000000
     = executeLendingAllocation scenario_env
      (example_strategy [(''secondaryToken'', Fin 100)] (js ''APY > 6%''))
      ''0xVault'' ''0xPool'' 1000000"
proof -
  have n: "map_of (assetAllocation
      (example_strategy [(''stablecoin'', Fin 70), (''eth'', Fin 30)] (js ''APY > 6%'')))
      ''lendingProtocol'' = None"
    by (simp add: example_strategy_def)
  have e: "map_of (assetAllocation
      (example_strategy [(''stablecoin'', Fin 70), (''eth'', Fin 30)] (js ''APY > 6%'')))
      ''lendingProtocol''
    = map_of (assetAllocation
      (example_strategy [(''secondaryToken'', Fin 100)] (js ''APY > 6%'')))
      ''lendingProtocol''"
    by (simp add: example_strategy_def)
  have sg: "getSigner scenario_env = Inr (Wallet ''0x01'')"
    by (simp add: getSigner_def scenario_env_def)
  from C10_only_lending_entry
    [of "example_strategy [(''stablecoin'', Fin 70), (''eth'', Fin 30)] (js ''APY > 6%'')"
      1000000 scenario_env "''0xVault''" "''0xPool''" "Wallet ''0x01''"
      "example_strategy [(''secondaryToken'', Fin 100)] (js ''APY > 6%'')"]
    n e sg
  show ?thesis by blast
qed

text \<open>
  Without the condition on the signer the statement fails here too: with no wallet key
  configured, a strategy without the entry makes the executor raise the error of the
  missing key.
\<close>

theorem C10_signer_first_counterexample:
  "map_of (assetAllocation
        (example_strategy [(''stablecoin'', Fin 70), (''eth'', Fin 30)] (js ''APY > 6%'')))
      ''lendingProtocol'' = None
   \<and> executeLendingAllocation (scenario_env\<lparr>privateKey := []\<rparr>)
        (example_strategy [(''stablecoin'', Fin 70), (''eth'', Fin 30)] (js ''APY > 6%''))
        ''0xVault'' ''0xPool'' 1000000
      = (Inl WalletKeyNotConfigured, [])
   \<and> WalletKeyNotConfigured \<noteq> NoAllocationError"
  by (simp add: example_strategy_def executeLendingAllocation_def getSigner_def
      scenario_env_def)

subsection \<open>The phases of the handler\<close>

lemma allocation_trace:
  "snd (executeLendingAllocation env strategy v p x) = []
   \<or> (\<exists>c d. snd (executeLendingAllocation env strategy v p x)
         = [VaultExecute v [tokenAddress env, p] [c, d] [0, 0]])"
  by (auto simp: executeLendingAllocation_def split: sum.splits)

lemma allocation_no_anchor:
  "filter is_anchor (snd (executeLendingAllocation env strategy v p x)) = []"
  using allocation_trace [of env strategy v p x] by auto

lemma full_strategy_no_anchor:
  "filter is_anchor (snd (executeFullStrategy env strategy)) = []"
proof (cases "executeLendingAllocation env strategy (strategyVaultAddress env)
    (lendingPoolAddress env) (projr (totalAssets_result env))")
  case (Pair r tr)
  with allocation_no_anchor [of env strategy "strategyVaultAddress env"
      "lendingPoolAddress env" "projr (totalAssets_result env)"]
  have "filter is_anchor tr = []" by simp
  with Pair show ?thesis
    by (auto simp: executeFullStrategy_def getVaultTotalAssets_def split: sum.splits)
qed

lemma upload_no_anchor: "filter is_anchor (snd (uploadToIPFS env strategy)) = []"
  by (auto simp: uploadToIPFS_def Let_def split: sum.splits prod.splits)


lemma phase_upload_failed:
  assumes "fst (uploadToIPFS env strategy) = Inl e"
  shows "executionPhase env strategy =
     ((initialSteps env strategy @ [allocationStep (fst (executeFullStrategy env strategy))],
       None),
      snd (executeFullStrategy env strategy) @ snd (uploadToIPFS env strategy))"
  using assms
  by (cases "executeFullStrategy env strategy"; cases "uploadToIPFS env strategy")
     (simp add: executionPhase_def)

lemma phase_no_identifier:
  assumes "fst (uploadToIPFS env strategy) = Inr ipfs" and "cid ipfs = []"
  shows "executionPhase env strategy =
     ((initialSteps env strategy @ [allocationStep (fst (executeFullStrategy env strategy))],
       Some ipfs),
      snd (executeFullStrategy env strategy) @ snd (uploadToIPFS env strategy))"
  using assms
  by (cases "executeFullStrategy env strategy"; cases "uploadToIPFS env strategy")
     (simp add: executionPhase_def)

lemma phase_anchored:
  assumes "fst (uploadToIPFS env strategy) = Inr ipfs" and "cid ipfs \<noteq> []"
  shows "executionPhase env strategy =
     ((initialSteps env strategy @
         [allocationStep (fst (executeFullStrategy env strategy)),
          anchorStep (fst (setStrategyReference env 1 (gatewayUrl ipfs)))],
       Some ipfs),
      snd (executeFullStrategy env strategy) @ snd (uploadToIPFS env strategy)
        @ snd (setStrategyReference env 1 (gatewayUrl ipfs)))"
  using assms
  by (cases "executeFullStrategy env strategy"; cases "uploadToIPFS env strategy";
      cases "setStrategyReference env 1 (gatewayUrl ipfs)")
     (simp add: executionPhase_def)

lemma phase_cases:
  obtains (failed) e where "fst (uploadToIPFS env strategy) = Inl e"
  | (no_identifier) ipfs where "fst (uploadToIPFS env strategy) = Inr ipfs" and "cid ipfs = []"
  | (anchored) ipfs where "fst (uploadToIPFS env strategy) = Inr ipfs" and "cid ipfs \<noteq> []"
  by (cases "fst (uploadToIPFS env strategy)") auto

lemma initialSteps_plain:
  "filter is_failure_step (initialSteps env strategy) = []"
  "filter is_anchor_step (initialSteps env strategy) = []"
  by (simp_all add: initialSteps_def)

lemma anchorStep_kind:
  "is_anchor_step (anchorStep a)" "\<not> is_failure_step (anchorStep a)"
  by (cases a; simp add: anchorStep_def)+

lemma allocationStep_kind: "\<not> is_anchor_step (allocationStep r)"
  by (cases r) (auto simp: allocationStep_def split: option.splits)

lemma phase_failure_steps:
  "filter is_failure_step (fst (fst (executionPhase env strategy)))
     = filter is_failure_step [allocationStep (fst (executeFullStrategy env strategy))]"
  by (cases rule: phase_cases [of env strategy])
     (simp_all add: phase_upload_failed phase_no_identifier phase_anchored
        initialSteps_plain anchorStep_kind)

lemma phase_allocation_step:
  "allocationStep (fst (executeFullStrategy env strategy))
     \<in> set (fst (fst (executionPhase env strategy)))"
  by (cases rule: phase_cases [of env strategy])
     (simp_all add: phase_upload_failed phase_no_identifier phase_anchored)

lemma gating_skip:
  assumes "strategyVaultAddress env \<noteq> []" and "lendingPoolAddress env \<noteq> []"
    and "\<not> shouldInvestInLendingProtocol strategy (currentAPY env)
      \<or> (\<exists>b\<le>0. totalAssets_result env = Inr b)"
  shows "fst (executeFullStrategy env strategy) = Inr None
     \<and> filter is_transaction (snd (executeFullStrategy env strategy)) = []"
  using assms
  by (auto simp: executeFullStrategy_def getVaultTotalAssets_def)

lemma gating_no_transaction:
  assumes "\<not> shouldInvestInLendingProtocol strategy (currentAPY env)
      \<or> (\<exists>b\<le>0. totalAssets_result env = Inr b)"
  shows "filter is_transaction (snd (executeFullStrategy env strategy)) = []
     \<and> (\<forall>msg. fst (executeFullStrategy env strategy) \<noteq> Inl (ChainExecutionError msg))"
  using assms
  by (auto simp: executeFullStrategy_def getVaultTotalAssets_def)


lemma handler_anchor_events:
  assumes "getMemories_result env = Inr (m # ms)" and "loadStrategy m = Inr strategy"
  shows "filter is_anchor (snd (snd (executeStrategyAction_handler env message))) =
     (if processed message = Some ''EXECUTE_YIELD_STRATEGY'' then []
      else filter is_anchor (snd (executionPhase env strategy)))"
  using assms
  by (cases "executionPhase env strategy")
     (auto simp: executeStrategyAction_handler_def handler_body_def respond_def Let_def
        split: prod.splits option.splits)

lemma handler_without_strategy:
  assumes "\<not> (\<exists>m ms strategy. getMemories_result env = Inr (m # ms)
      \<and> loadStrategy m = Inr strategy)"
  shows "filter is_anchor (snd (snd (executeStrategyAction_handler env message))) = []"
proof (cases "getMemories_result env")
  case (Inl e)
  then show ?thesis
    by (auto simp: executeStrategyAction_handler_def handler_body_def Let_def
        split: option.splits)
next
  case (Inr mems)
  show ?thesis
  proof (cases mems)
    case Nil
    with Inr show ?thesis
      by (auto simp: executeStrategyAction_handler_def handler_body_def respond_def Let_def
          split: option.splits)
  next
    case (Cons m ms)
    with Inr assms obtain e where "loadStrategy m = Inl e"
      by (cases "loadStrategy m") auto
    with Inr Cons show ?thesis
      by (auto simp: executeStrategyAction_handler_def handler_body_def respond_def Let_def
          split: option.splits)
  qed
qed

lemma anchor_needs_publication:
  assumes "filter is_anchor (snd (executionPhase env strategy)) \<noteq> []"
  shows "\<exists>ipfs. fst (uploadToIPFS env strategy) = Inr ipfs \<and> cid ipfs \<noteq> []"
proof (cases rule: phase_cases [of env strategy])
  case (failed e)
  with assms show ?thesis
    by (simp add: phase_upload_failed full_strategy_no_anchor upload_no_anchor)
next
  case (no_identifier ipfs)
  with assms show ?thesis
    by (simp add: phase_no_identifier full_strategy_no_anchor upload_no_anchor)
next
  case (anchored ipfs)
  then show ?thesis by blast
qed

lemma handler_anchor_needs_publication:
  assumes "filter is_anchor (snd (snd (executeStrategyAction_handler env message))) \<noteq> []"
  shows "\<exists>m ms strategy ipfs. getMemories_result env = Inr (m # ms)
     \<and> loadStrategy m = Inr strategy
     \<and> fst (uploadToIPFS env strategy) = Inr ipfs \<and> cid ipfs \<noteq> []"
proof -
  from assms handler_without_strategy [of env message]
  obtain m ms strategy where g: "getMemories_result env = Inr (m # ms)"
    and l: "loadStrategy m = Inr strategy" by blast
  from assms handler_anchor_events [OF g l, of message]
  have "filter is_anchor (snd (executionPhase env strategy)) \<noteq> []"
    by (simp split: if_splits)
  from anchor_needs_publication [OF this] g l show ?thesis by blast
qed

text \<open>
  C6. When the investment condition is false, or the balance read from the vault is
  \<open>\<le> 0\<close>, \<open>executeFullStrategy\<close> submits no transaction and raises no
  \<open>ChainExecutionError\<close>; in the state in which the condition is evaluated, that is with
  the vault and the lending pool configured, it returns \<open>null\<close>, and the handler records
  that no action was taken and no failure of the execution.
\<close>

theorem C6_clean_skip:
  assumes "\<not> shouldInvestInLendingProtocol strategy (currentAPY env)
      \<or> (\<exists>b\<le>0. totalAssets_result env = Inr b)"
  shows "filter is_transaction (snd (executeFullStrategy env strategy)) = []
     \<and> (\<forall>msg. fst (executeFullStrategy env strategy) \<noteq> Inl (ChainExecutionError msg))
     \<and> (strategyVaultAddress env \<noteq> [] \<and> lendingPoolAddress env \<noteq> [] \<longrightarrow>
          fst (executeFullStrategy env strategy) = Inr None
          \<and> NoActionTaken \<in> set (fst (fst (executionPhase env strategy)))
          \<and> filter is_failure_step (fst (fst (executionPhase env strategy))) = [])"
proof -
  have "fst (executeFullStrategy env strategy) = Inr None
      \<and> NoActionTaken \<in> set (fst (fst (executionPhase env strategy)))
      \<and> filter is_failure_step (fst (fst (executionPhase env strategy))) = []"
    if c: "strategyVaultAddress env \<noteq> [] \<and> lendingPoolAddress env \<noteq> []"
  proof -
    from c assms have g: "fst (executeFullStrategy env strategy) = Inr None"
      using gating_skip [of env strategy] by simp
    have s: "allocationStep (fst (executeFullStrategy env strategy)) = NoActionTaken"
      by (simp add: g allocationStep_def)
    from phase_allocation_step [of env strategy] s
    have "NoActionTaken \<in> set (fst (fst (executionPhase env strategy)))" by simp
    moreover have "filter is_failure_step (fst (fst (executionPhase env strategy))) = []"
      by (simp add: phase_failure_steps s)
    ultimately show ?thesis using g by simp
  qed
  with gating_no_transaction [OF assms] show ?thesis by blast
qed

theorem C6_clean_skip_witness:
  "fst (executeFullStrategy (scenario_env\<lparr>currentAPY := Fin 5\<rparr>) scenario_strategy) = Inr None
   \<and> filter is_transaction
       (snd (executeFullStrategy (scenario_env\<lparr>currentAPY := Fin 5\<rparr>) scenario_strategy)) = []
   \<and> fst (executeFullStrategy (scenario_env\<lparr>totalAssets_result := Inr 0\<rparr>) scenario_strategy)
       = Inr None
   \<and> filter is_transaction
       (snd (executeFullStrategy (scenario_env\<lparr>totalAssets_result := Inr 0\<rparr>)
          scenario_strategy)) = []
   \<and> filter is_failure_step
       (fst (fst (executionPhase (scenario_env\<lparr>totalAssets_result := Inr 0\<rparr>)
          scenario_strategy))) = []"
proof -
  have a: "strategyVaultAddress (scenario_env\<lparr>currentAPY := Fin 5\<rparr>) \<noteq> []
      \<and> lendingPoolAddress (scenario_env\<lparr>currentAPY := Fin 5\<rparr>) \<noteq> []"
    "strategyVaultAddress (scenario_env\<lparr>totalAssets_result := Inr 0\<rparr>) \<noteq> []
      \<and> lendingPoolAddress (scenario_env\<lparr>totalAssets_result := Inr 0\<rparr>) \<noteq> []"
    by (simp_all add: scenario_env_def)
  have c: "\<not> shouldInvestInLendingProtocol scenario_strategy
        (currentAPY (scenario_env\<lparr>currentAPY := Fin 5\<rparr>))
      \<or> (\<exists>b\<le>0. totalAssets_result (scenario_env\<lparr>currentAPY := Fin 5\<rparr>) = Inr b)"
    by (simp add: eval_defs)
  have b: "\<not> shouldInvestInLendingProtocol scenario_strategy
        (currentAPY (scenario_env\<lparr>totalAssets_result := Inr 0\<rparr>))
      \<or> (\<exists>b\<le>0. totalAssets_result (scenario_env\<lparr>totalAssets_result := Inr 0\<rparr>) = Inr b)"
    by simp
  from C6_clean_skip [OF c] C6_clean_skip [OF b] a
  show ?thesis by blast
qed



text \<open>
  C8. When the upload raises, no transaction that sets the reference is submitted,
  neither a success nor a failure of the anchor is recorded, and the provenance record is
  \<open>null\<close>; this holds for the whole run of the handler as well. Conversely, a
  submission or a recorded step of the anchor, in the phase or in the whole run of the
  handler, means that the upload succeeded with a non-empty identifier.
\<close>

theorem C8_anchor_only_after_publication:
  "(fst (uploadToIPFS env strategy) = Inl e \<longrightarrow>
      filter is_anchor (snd (executionPhase env strategy)) = []
      \<and> filter is_anchor_step (fst (fst (executionPhase env strategy))) = []
      \<and> snd (fst (executionPhase env strategy)) = None
      \<and> (getMemories_result env = Inr (m # ms) \<and> loadStrategy m = Inr strategy \<longrightarrow>
           filter is_anchor (snd (snd (executeStrategyAction_handler env message))) = []))
   \<and> (filter is_anchor (snd (executionPhase env strategy)) \<noteq> []
        \<or> filter is_anchor_step (fst (fst (executionPhase env strategy))) \<noteq> [] \<longrightarrow>
      (\<exists>ipfs. fst (uploadToIPFS env strategy) = Inr ipfs \<and> cid ipfs \<noteq> []))
   \<and> (filter is_anchor (snd (snd (executeStrategyAction_handler env message))) \<noteq> [] \<longrightarrow>
      (\<exists>m' ms' strategy' ipfs. getMemories_result env = Inr (m' # ms')
         \<and> loadStrategy m' = Inr strategy'
         \<and> fst (uploadToIPFS env strategy') = Inr ipfs \<and> cid ipfs \<noteq> []))"
proof -
  have none: "filter is_anchor (snd (executionPhase env strategy)) = []
      \<and> filter is_anchor_step (fst (fst (executionPhase env strategy))) = []"
    if "\<not> (\<exists>ipfs. fst (uploadToIPFS env strategy) = Inr ipfs \<and> cid ipfs \<noteq> [])"
  proof (cases rule: phase_cases [of env strategy])
    case (failed e)
    then show ?thesis
      by (simp add: phase_upload_failed full_strategy_no_anchor upload_no_anchor
          initialSteps_plain allocationStep_kind)
  next
    case (no_identifier ipfs)
    then show ?thesis
      by (simp add: phase_no_identifier full_strategy_no_anchor upload_no_anchor
          initialSteps_plain allocationStep_kind)
  next
    case (anchored ipfs)
    with that show ?thesis by blast
  qed
  have failed: "filter is_anchor (snd (executionPhase env strategy)) = []
      \<and> filter is_anchor_step (fst (fst (executionPhase env strategy))) = []
      \<and> snd (fst (executionPhase env strategy)) = None
      \<and> (getMemories_result env = Inr (m # ms) \<and> loadStrategy m = Inr strategy \<longrightarrow>
           filter is_anchor (snd (snd (executeStrategyAction_handler env message))) = [])"
    if f: "fst (uploadToIPFS env strategy) = Inl e"
  proof -
    from f have "\<not> (\<exists>ipfs. fst (uploadToIPFS env strategy) = Inr ipfs \<and> cid ipfs \<noteq> [])"
      by simp
    from none [OF this] have n: "filter is_anchor (snd (executionPhase env strategy)) = []"
      and st: "filter is_anchor_step (fst (fst (executionPhase env strategy))) = []"
      by simp_all
    have "snd (fst (executionPhase env strategy)) = None"
      using f by (simp add: phase_upload_failed)
    moreover have "filter is_anchor (snd (snd (executeStrategyAction_handler env message)))
        = []"
      if "getMemories_result env = Inr (m # ms) \<and> loadStrategy m = Inr strategy"
      using that n handler_anchor_events [of env m ms strategy message] by simp
    ultimately show ?thesis using n st by blast
  qed
  from none failed handler_anchor_needs_publication [of env message]
  show ?thesis by blast
qed

theorem C8_anchor_only_after_publication_witness:
  "filter is_anchor (snd (snd (executeStrategyAction_handler
       (scenario_env\<lparr>pinata_response := Inr (False, ''unauthorized'')\<rparr>) scenario_message)))
     = []
   \<and> snd (fst (executionPhase
       (scenario_env\<lparr>pinata_response := Inr (False, ''unauthorized'')\<rparr>) scenario_strategy))
     = None
   \<and> (\<exists>ipfs. fst (uploadToIPFS scenario_env scenario_strategy) = Inr ipfs \<and> cid ipfs \<noteq> [])"
proof -
  let ?env = "scenario_env\<lparr>pinata_response := Inr (False, ''unauthorized'')\<rparr>"
  have f: "fst (uploadToIPFS ?env scenario_strategy) = Inl (PinataUploadFailed ''unauthorized'')"
    by (simp add: uploadToIPFS_def scenario_env_def)
  have g: "getMemories_result ?env = Inr (StoredText (Inr scenario_strategy) # [])
      \<and> loadStrategy (StoredText (Inr scenario_strategy)) = Inr scenario_strategy"
    by (simp add: scenario_env_def)
  have a: "filter is_anchor (snd (executionPhase scenario_env scenario_strategy)) \<noteq> []
      \<or> filter is_anchor_step (fst (fst (executionPhase scenario_env scenario_strategy)))
          \<noteq> []"
    by (simp add: eval_defs)
  from C8_anchor_only_after_publication
    [of ?env scenario_strategy "PinataUploadFailed ''unauthorized''"
      "StoredText (Inr scenario_strategy)" "[]" scenario_message] f g
  have 1: "filter is_anchor (snd (snd (executeStrategyAction_handler ?env scenario_message)))
      = [] \<and> snd (fst (executionPhase ?env scenario_strategy)) = None"
    by blast
  from C8_anchor_only_after_publication [of scenario_env scenario_strategy] a
  have 2: "\<exists>ipfs. fst (uploadToIPFS scenario_env scenario_strategy) = Inr ipfs
      \<and> cid ipfs \<noteq> []"
    by blast
  from 1 2 show ?thesis by blast
qed

subsection \<open>Duplicate requests\<close>

lemma handler_marks_message:
  "processed (fst (snd (executeStrategyAction_handler env message)))
     = Some ''EXECUTE_YIELD_STRATEGY''"
  by (cases "handler_body env")
     (auto simp: executeStrategyAction_handler_def Let_def split: sum.splits option.splits)

lemma handler_same_object_returns:
  "executeStrategyAction_handler env (fst (snd (executeStrategyAction_handler env message)))
     = (Inr None, fst (snd (executeStrategyAction_handler env message)), [])"
  using handler_marks_message [of env message]
  by (simp add: executeStrategyAction_handler_def)

lemma parse_guard_deduplicates:
  assumes "msg_id message = Some i" and "i \<noteq> []"
    and "parseStrategy_guard registry message = (True, registry', message')"
    and "msg_id again = Some i"
  shows "fst (parseStrategy_guard registry' again) = False"
  using assms by (auto simp: parseStrategy_guard_def split: if_splits)

text \<open>
  C9. The handler that executes a strategy recognises a duplicate only by the mark it
  left on the message object; it never consults the registry of identifiers that the
  parsing handler keeps. Given the marked object again it returns at once, without an
  event; a request delivered again as a new object with the same identifier is executed
  again: two submissions and two publications in all.
\<close>

theorem C9_redelivered_request_runs_again:
  "msg_id redelivered_message = msg_id scenario_message
   \<and> snd (snd (executeStrategyAction_handler scenario_env
        (fst (snd (executeStrategyAction_handler scenario_env scenario_message))))) = []
   \<and> length (filter is_allocation
        (snd (snd (executeStrategyAction_handler scenario_env scenario_message))
         @ snd (snd (executeStrategyAction_handler scenario_env redelivered_message)))) = 2
   \<and> length (filter is_publication
        (snd (snd (executeStrategyAction_handler scenario_env scenario_message))
         @ snd (snd (executeStrategyAction_handler scenario_env redelivered_message)))) = 2"
  by (simp add: eval_defs)


end
